theory Spec2Isabelle
  imports Complex_Main
begin

section \<open>Strings as Python sees them\<close>

text \<open>
  Python strings are modelled as \<^typ>\<open>string\<close>, one \<^typ>\<open>char\<close> per code point below 256.
  \<open>str.strip()\<close> with no argument removes the characters for which \<open>str.isspace\<close> holds
  from both ends; below 256 these are TAB..CR, FS..US, the blank, NEL and NBSP.
\<close>

definition isspace :: "char \<Rightarrow> bool" where
  "isspace c = (c \<in> set [CHR 0x09, CHR 0x0A, CHR 0x0B, CHR 0x0C, CHR 0x0D,
                           CHR 0x1C, CHR 0x1D, CHR 0x1E, CHR 0x1F, CHR 0x20,
                           CHR 0x85, CHR 0xA0])"

definition strip :: "string \<Rightarrow> string" where
  "strip s = rev (dropWhile isspace (rev (dropWhile isspace s)))"

text \<open>\<open>sub in s\<close> on strings: \<open>sub\<close> occurs in \<open>s\<close> as a contiguous run.\<close>

fun str_contains :: "string \<Rightarrow> string \<Rightarrow> bool" where
  "str_contains sub [] = (sub = [])"
| "str_contains sub (c # cs) = (take (length sub) (c # cs) = sub \<or> str_contains sub cs)"

section \<open>Floats as Python computes them\<close>

text \<open>
  A Python float is an IEEE 754 binary64 number: \<open>Fin m e\<close> stands for \<open>m * 2^e\<close>, and
  there are the two infinities and NaN. A double is a \<open>Fin m e\<close> whose \<open>m\<close> has at most 53
  bits, at an exponent \<open>e\<close> from \<open>-1074\<close> on, below \<open>2^1024\<close> in size. The literal
  \<open>1.0\<close> is \<open>Fin 1 0\<close>, \<open>0.5\<close> is \<open>Fin 1 (-1)\<close> and \<open>0.0\<close> is \<open>Fin 0 0\<close>.
\<close>

datatype pyfloat = Fin int int | PInf | NInf | NaN

definition float_value :: "pyfloat \<Rightarrow> real" where
  "float_value x = (case x of Fin m e \<Rightarrow> real_of_int m * 2 powr real_of_int e | _ \<Rightarrow> 0)"

text \<open>The number of bits of a natural number.\<close>

function bit_length :: "nat \<Rightarrow> nat" where
  "bit_length n = (if n = 0 then 0 else Suc (bit_length (n div 2)))"
  by pat_completeness auto
termination
  by (relation "measure (\<lambda>n. n)") auto

declare bit_length.simps [simp del]

text \<open>
  Rounding of the exact value \<open>m * 2^e\<close> to the nearest double, ties to the even
  mantissa: a mantissa of more than 53 bits loses its low bits, and a result of
  \<open>2^1024\<close> or more in size is an infinity. (The exact difference of two doubles has an
  exponent from \<open>-1074\<close> on, so nothing is lost to underflow.)
\<close>

definition round_double :: "int \<Rightarrow> int \<Rightarrow> pyfloat" where
  "round_double m e =
     (let k = int (bit_length (nat \<bar>m\<bar>)) - 53 in
      if k \<le> 0 then Fin m e
      else
        let q = m div 2 ^ nat k;
            r = m mod 2 ^ nat k;
            half = 2 ^ nat (k - 1);
            q' = (if r > half \<or> (r = half \<and> odd q) then q + 1 else q)
        in if int (bit_length (nat \<bar>q'\<bar>)) + (e + k) > 1024
           then (if q' > 0 then PInf else NInf)
           else Fin q' (e + k))"

text \<open>\<open>x - y\<close> on floats: the exact difference, rounded.\<close>

fun float_sub :: "pyfloat \<Rightarrow> pyfloat \<Rightarrow> pyfloat" where
  "float_sub (Fin m1 e1) (Fin m2 e2) =
     (let e = min e1 e2
      in round_double (m1 * 2 ^ nat (e1 - e) - m2 * 2 ^ nat (e2 - e)) e)"
| "float_sub NaN y = NaN"
| "float_sub x NaN = NaN"
| "float_sub PInf PInf = NaN"
| "float_sub NInf NInf = NaN"
| "float_sub PInf y = PInf"
| "float_sub NInf y = NInf"
| "float_sub x PInf = NInf"
| "float_sub x NInf = PInf"

text \<open>\<open>x >= y\<close> on floats: false whenever one of them is NaN.\<close>

fun float_ge :: "pyfloat \<Rightarrow> pyfloat \<Rightarrow> bool" where
  "float_ge (Fin m1 e1) (Fin m2 e2) =
     (let e = min e1 e2 in m1 * 2 ^ nat (e1 - e) \<ge> m2 * 2 ^ nat (e2 - e))"
| "float_ge NaN y = False"
| "float_ge x NaN = False"
| "float_ge PInf y = True"
| "float_ge x NInf = True"
| "float_ge x y = False"

section \<open>The completion service\<close>

text \<open>
  Every prompt of the program is a fixed template (an f-string) around a few interpolated
  values, so a prompt is represented by its template and those values. The replies and
  fallback answers of the bot are fixed (non-ASCII) strings and are represented by name.

  \<open>generate_content(prompt)\<close> followed by \<open>response.text\<close> either yields a text or raises;
  the service is a function from the prompt to \<open>Some text\<close> or \<open>None\<close> (it raised).
\<close>

datatype response = Generated string | RagApology | GeneralFallback

datatype prompt =
    ImprovePrompt string string
  | RagPrompt "(string \<times> string option) list" string
  | GeneralPrompt string
  | RefinePrompt string "(string \<times> response) list"

type_synonym completion = "prompt \<Rightarrow> string option"

section \<open>processor: DataProcessor\<close>

text \<open>
  \<open>improve_text_with_ai\<close>: blank text is returned as it is, without a call. Otherwise the
  prompt carries the page title and \<open>text[:2000]\<close>; the stripped answer is returned, and any
  exception of the call is caught and the original text returned.
\<close>

definition improve_text_with_ai :: "completion \<Rightarrow> string \<Rightarrow> string \<Rightarrow> string" where
  "improve_text_with_ai model txt page_title =
     (if strip txt = [] then txt
      else case model (ImprovePrompt page_title (take 2000 txt)) of
             Some answer \<Rightarrow> strip answer
           | None \<Rightarrow> txt)"

text \<open>
  The text splitter (\<open>RecursiveCharacterTextSplitter.split_text\<close>) is a library object:
  it is a parameter, returning the chunks (\<open>Inr\<close>) or raising with a message (\<open>Inl\<close>).
\<close>

type_synonym splitter = "string \<Rightarrow> string + string list"

definition create_chunks :: "splitter \<Rightarrow> string \<Rightarrow> string + string list" where
  "create_chunks text_splitter txt =
     (if strip txt = [] then Inr [] else text_splitter txt)"

text \<open>
  A page is a dictionary. The keys every page of the scraper has are plain fields; the
  keys that may be absent (\<open>error\<close>, and the keys processing adds) are optional fields,
  \<open>None\<close> for an absent key.
\<close>

record page =
  url :: string
  title :: string
  description :: string
  content :: string
  links :: "string list"
  error :: "string option"
  scraped_at :: real
  original_content :: "string option"
  improved_content :: "string option"
  chunks :: "string list option"
  chunk_count :: "nat option"
  processed :: "bool option"
  processing_error :: "string option"

text \<open>
  \<open>process_page_data\<close>: a page with the key \<open>error\<close> is returned as it is. Otherwise the
  content is improved and chunked, and a copy of the page with the five new keys is
  returned. An exception of the splitter leaves the function (\<open>Inl\<close>).
\<close>

definition process_page_data :: "completion \<Rightarrow> splitter \<Rightarrow> page \<Rightarrow> string + page" where
  "process_page_data model text_splitter page_data =
     (if error page_data \<noteq> None then Inr page_data
      else
        let original = content page_data;
            page_title = title page_data;
            improved = improve_text_with_ai model original page_title
        in case create_chunks text_splitter improved of
             Inl e \<Rightarrow> Inl e
           | Inr cs \<Rightarrow>
               Inr (page_data\<lparr>original_content := Some original,
                              improved_content := Some improved,
                              chunks := Some cs,
                              chunk_count := Some (length cs),
                              processed := Some True\<rparr>))"

text \<open>
  \<open>process_all_data\<close>: every page is processed in turn; a page whose processing raised is
  appended as a copy with the key \<open>processing_error\<close> set to the message.
\<close>

definition process_all_data :: "completion \<Rightarrow> splitter \<Rightarrow> page list \<Rightarrow> page list" where
  "process_all_data model text_splitter scraped =
     map (\<lambda>page_data.
            case process_page_data model text_splitter page_data of
              Inr processed_page \<Rightarrow> processed_page
            | Inl e \<Rightarrow> page_data\<lparr>processing_error := Some e\<rparr>)
         scraped"

text \<open>
  The metadata stored with a chunk, and the chunk dictionary: the metadata keys and
  \<open>content\<close>.
\<close>

record metadata =
  source_url :: string
  page_title :: string
  page_description :: string
  chunk_index :: nat
  total_chunks :: nat

record chunk = metadata +
  chunk_content :: string

text \<open>
  \<open>extract_all_chunks\<close>: a page is skipped unless \<open>page_data.get('processed')\<close> is true and
  the key \<open>chunks\<close> is present; otherwise each of its chunks becomes a chunk dictionary
  with its position and the number of chunks of the page.
\<close>

definition page_chunks :: "page \<Rightarrow> chunk list" where
  "page_chunks page_data =
     (case chunks page_data of
        None \<Rightarrow> []
      | Some cs \<Rightarrow>
          if processed page_data \<noteq> Some True then []
          else map (\<lambda>(i, c). \<lparr>source_url = url page_data,
                                page_title = title page_data,
                                page_description = description page_data,
                                chunk_index = i,
                                total_chunks = length cs,
                                chunk_content = c\<rparr>)
                   (enumerate 0 cs))"

definition extract_all_chunks :: "page list \<Rightarrow> chunk list" where
  "extract_all_chunks processed_data = concat (map page_chunks processed_data)"

section \<open>scraper: IITUWebScraper\<close>

text \<open>
  \<open>urljoin\<close> and \<open>urlparse\<close> are functions of the standard library and are parameters of
  the model; each returns its result (\<open>Inr\<close>) or raises \<open>ValueError\<close> with a message
  (\<open>Inl\<close>). \<open>netloc lib u\<close> stands for \<open>urlparse(u).netloc\<close>.
\<close>

record urllib =
  urljoin :: "string \<Rightarrow> string \<Rightarrow> string + string"
  netloc :: "string \<Rightarrow> string + string"

text \<open>\<open>is_valid_url\<close>: the literal \<open>'iitu.edu.kz'\<close> occurs in the netloc of the URL.\<close>

definition is_valid_url :: "urllib \<Rightarrow> string \<Rightarrow> string + bool" where
  "is_valid_url lib u =
     (case netloc lib u of
        Inl e \<Rightarrow> Inl e
      | Inr parsed_netloc \<Rightarrow> Inr (str_contains ''iitu.edu.kz'' parsed_netloc))"

text \<open>
  What \<open>BeautifulSoup\<close> finds in a fetched document: the text of the \<open>title\<close> element if
  there is one, the \<open>content\<close> of the description \<open>meta\<close> element (\<open>''\<close> without one), the
  text \<open>extract_text_content\<close> returns, and the \<open>href\<close> of every anchor, in document order.
\<close>

record html =
  doc_title :: "string option"
  doc_description :: string
  doc_text :: string
  anchors :: "string list"

text \<open>
  The site: \<open>http_get\<close> is \<open>requests.get\<close>, \<open>raise_for_status\<close> and the parse together,
  yielding the document or the message of the exception; \<open>clock u\<close> is what \<open>time.time()\<close>
  returns when the page of \<open>u\<close> is recorded.
\<close>

record web =
  http_get :: "string \<Rightarrow> string + html"
  clock :: "string \<Rightarrow> real"

text \<open>
  \<open>extract_links\<close>: every href is joined to the current URL and kept when it is valid and
  not in the visited set. An exception at any anchor leaves the function.
\<close>

fun extract_links :: "urllib \<Rightarrow> string set \<Rightarrow> string list \<Rightarrow> string \<Rightarrow> string + string list" where
  "extract_links lib visited [] current_url = Inr []"
| "extract_links lib visited (href # hrefs) current_url =
     (case urljoin lib current_url href of
        Inl e \<Rightarrow> Inl e
      | Inr u \<Rightarrow>
          (case is_valid_url lib u of
             Inl e \<Rightarrow> Inl e
           | Inr valid \<Rightarrow>
               (case extract_links lib visited hrefs current_url of
                  Inl e \<Rightarrow> Inl e
                | Inr ls \<Rightarrow> Inr (if valid \<and> u \<notin> visited then u # ls else ls))))"

definition error_page :: "web \<Rightarrow> string \<Rightarrow> string \<Rightarrow> page" where
  "error_page w u e =
     \<lparr>url = u, title = [], description = [], content = [], links = [],
      error = Some e, scraped_at = clock w u,
      original_content = None, improved_content = None, chunks = None,
      chunk_count = None, processed = None, processing_error = None\<rparr>"

text \<open>
  \<open>scrape_page\<close>: the whole body is inside \<open>try\<close>; any exception, of the fetch or of the
  link extraction, yields the page with the key \<open>error\<close> and no links.
\<close>

definition scrape_page :: "urllib \<Rightarrow> web \<Rightarrow> string set \<Rightarrow> string \<Rightarrow> page" where
  "scrape_page lib w visited u =
     (case http_get w u of
        Inl e \<Rightarrow> error_page w u e
      | Inr soup \<Rightarrow>
          (case extract_links lib visited (anchors soup) u of
             Inl e \<Rightarrow> error_page w u e
           | Inr ls \<Rightarrow>
               \<lparr>url = u,
                title = (case doc_title soup of Some t \<Rightarrow> strip t | None \<Rightarrow> ''No title''),
                description = doc_description soup,
                content = doc_text soup,
                links = ls,
                error = None, scraped_at = clock w u,
                original_content = None, improved_content = None, chunks = None,
                chunk_count = None, processed = None, processing_error = None\<rparr>))"

text \<open>
  The state of the loop of \<open>scrape_website\<close>: the frontier \<open>urls_to_visit\<close>, the scraper's
  \<open>visited_urls\<close> and \<open>scraped_data\<close>. The field \<open>enqueued\<close> is a history variable: it
  records every URL put on the frontier, in order, and is read by no step.
\<close>

record crawl =
  urls_to_visit :: "string list"
  visited_urls :: "string set"
  scraped_data :: "page list"
  enqueued :: "string list"

text \<open>
  The inner loop: a link is appended to the frontier unless it is visited or already on
  the frontier.
\<close>

fun enqueue_links :: "string set \<Rightarrow> string list \<Rightarrow> string list \<Rightarrow> string list" where
  "enqueue_links visited frontier [] = frontier"
| "enqueue_links visited frontier (link # ls) =
     enqueue_links visited
       (if link \<notin> visited \<and> link \<notin> set frontier then frontier @ [link] else frontier) ls"

text \<open>
  The body of the outer loop for a URL that was popped and is not visited: mark it, scrape
  it, append the page, enqueue its links. The argument state has the URL popped already.
\<close>

definition visit :: "urllib \<Rightarrow> web \<Rightarrow> string \<Rightarrow> crawl \<Rightarrow> crawl" where
  "visit lib w current_url st =
     (let visited = insert current_url (visited_urls st);
          page_data = scrape_page lib w visited current_url;
          frontier = enqueue_links visited (urls_to_visit st) (links page_data)
      in \<lparr>urls_to_visit = frontier,
          visited_urls = visited,
          scraped_data = scraped_data st @ [page_data],
          enqueued = enqueued st @ drop (length (urls_to_visit st)) frontier\<rparr>)"

function scrape_loop :: "urllib \<Rightarrow> web \<Rightarrow> int \<Rightarrow> crawl \<Rightarrow> crawl" where
  "scrape_loop lib w max_pages st =
     (case urls_to_visit st of
        [] \<Rightarrow> st
      | current_url # rest \<Rightarrow>
          if \<not> int (length (scraped_data st)) < max_pages then st
          else if current_url \<in> visited_urls st
            then scrape_loop lib w max_pages (st\<lparr>urls_to_visit := rest\<rparr>)
            else scrape_loop lib w max_pages (visit lib w current_url (st\<lparr>urls_to_visit := rest\<rparr>)))"
  by pat_completeness auto
termination
  by (relation "measures [\<lambda>(lib, w, max_pages, st). nat (max_pages - int (length (scraped_data st))),
                          \<lambda>(lib, w, max_pages, st). length (urls_to_visit st)]")
     (auto simp: visit_def Let_def)

declare scrape_loop.simps [simp del]

text \<open>
  \<open>scrape_website\<close> starts the loop with the base URL as the only frontier entry, on the
  scraper's current \<open>visited_urls\<close> and \<open>scraped_data\<close>; it returns \<open>scraped_data\<close>.
  A new scraper has both empty.
\<close>

definition scrape_website :: "urllib \<Rightarrow> web \<Rightarrow> string \<Rightarrow> int \<Rightarrow> string set \<Rightarrow> page list \<Rightarrow> crawl" where
  "scrape_website lib w base_url max_pages visited scraped =
     scrape_loop lib w max_pages
       \<lparr>urls_to_visit = [base_url], visited_urls = visited, scraped_data = scraped,
        enqueued = [base_url]\<rparr>"

definition new_scraper_run :: "urllib \<Rightarrow> web \<Rightarrow> string \<Rightarrow> int \<Rightarrow> crawl" where
  "new_scraper_run lib w base_url max_pages = scrape_website lib w base_url max_pages {} []"

text \<open>
  For evaluation on concrete sites: \<open>urlsplit\<close>'s netloc, and \<open>urljoin\<close> on hrefs that are
  absolute URLs (which it returns as they are). The scheme is what precedes the first
  colon when it starts with a letter and consists of scheme characters; the netloc is
  what follows \<open>//\<close> up to the first of \<open>/ ? #\<close>. \<open>urlsplit\<close>'s removal of control
  characters and its check of bracketed hosts are left out.
\<close>

definition scheme_char :: "char \<Rightarrow> bool" where
  "scheme_char c = (c \<in> set (''abcdefghijklmnopqrstuvwxyz'' @ ''ABCDEFGHIJKLMNOPQRSTUVWXYZ''
                              @ ''0123456789'' @ ''+-.''))"

definition after_scheme :: "string \<Rightarrow> string" where
  "after_scheme u =
     (let pre = takeWhile (\<lambda>c. c \<noteq> CHR '':'') u in
      if pre \<noteq> [] \<and> length pre < length u \<and> hd pre \<notin> set (''0123456789'' @ ''+-.'')
         \<and> list_all scheme_char pre
      then drop (length pre + 1) u else u)"

definition urlsplit_netloc :: "string \<Rightarrow> string" where
  "urlsplit_netloc u =
     (let r = after_scheme u in
      if take 2 r = ''//'' then takeWhile (\<lambda>c. c \<notin> set ''/?#'') (drop 2 r) else [])"

definition absolute_urllib :: urllib where
  "absolute_urllib = \<lparr>urljoin = (\<lambda>base href. Inr href), netloc = (\<lambda>u. Inr (urlsplit_netloc u))\<rparr>"

section \<open>database: VectorDatabase\<close>

text \<open>
  An entry of the collection: the generated identifier, the document and its metadata.
  The client's collection \<open>iitu_knowledge\<close> is \<open>Some\<close> of its entries, or \<open>None\<close> when it
  does not exist. A call to the backend can fail: \<open>delete_fails\<close> and \<open>create_fails\<close> say
  whether \<open>delete_collection\<close> and \<open>create_collection\<close> raise, \<open>add_fails k\<close> whether the
  call of \<open>collection.add\<close> for batch number \<open>k\<close> (from 0) raises. Deleting or adding to a
  collection that does not exist raises as well.
\<close>

record entry =
  entry_id :: string
  document :: string
  entry_metadata :: metadata

record faults =
  delete_fails :: bool
  create_fails :: bool
  add_fails :: "nat \<Rightarrow> bool"

text \<open>
  \<open>clear_collection\<close>: delete, then create, both inside one \<open>try\<close> whose handler only
  logs. When the delete raises nothing has changed; when the create raises the collection
  is gone.
\<close>

definition clear_collection :: "faults \<Rightarrow> entry list option \<Rightarrow> entry list option" where
  "clear_collection f coll =
     (if delete_fails f \<or> coll = None then coll
      else if create_fails f then None
      else Some [])"

text \<open>
  The first loop of \<open>add_chunks\<close>: \<open>uuid4 i\<close> is the identifier generated for the chunk at
  position \<open>i\<close> (one is generated for every chunk, before its content is looked at); a
  chunk whose stripped content is empty is skipped.
\<close>

definition prepare :: "(nat \<Rightarrow> string) \<Rightarrow> chunk list \<Rightarrow> entry list" where
  "prepare uuid4 cs =
     concat (map (\<lambda>(i, c).
                    if strip (chunk_content c) = [] then []
                    else [\<lparr>entry_id = uuid4 i,
                           document = chunk_content c,
                           entry_metadata =
                             \<lparr>source_url = source_url c, page_title = page_title c,
                              page_description = page_description c,
                              chunk_index = chunk_index c,
                              total_chunks = total_chunks c\<rparr>\<rparr>])
                 (enumerate 0 cs))"

text \<open>The slices \<open>xs[i:i+batch_size]\<close> for \<open>i\<close> in \<open>range(0, len(xs), batch_size)\<close>.\<close>

function batches :: "nat \<Rightarrow> 'a list \<Rightarrow> 'a list list" where
  "batches batch_size xs =
     (if xs = [] \<or> batch_size = 0 then []
      else take batch_size xs # batches batch_size (drop batch_size xs))"
  by pat_completeness auto
termination
  by (relation "measure (\<lambda>(batch_size, xs). length xs)") auto

declare batches.simps [simp del]

text \<open>
  The second loop: batch \<open>k\<close> is added unless the call raises; the exception is not caught,
  so the batches added before it stay. The result says whether the loop raised.
\<close>

fun add_batches :: "faults \<Rightarrow> nat \<Rightarrow> entry list option \<Rightarrow> entry list list \<Rightarrow> bool \<times> entry list option" where
  "add_batches f k coll [] = (False, coll)"
| "add_batches f k coll (b # bs) =
     (case coll of
        None \<Rightarrow> (True, None)
      | Some es \<Rightarrow>
          if add_fails f k then (True, Some es)
          else add_batches f (Suc k) (Some (es @ b)) bs)"

definition add_chunks :: "faults \<Rightarrow> (nat \<Rightarrow> string) \<Rightarrow> entry list option \<Rightarrow> chunk list \<Rightarrow> bool \<times> entry list option" where
  "add_chunks f uuid4 coll cs =
     (if cs = [] then (False, coll)
      else add_batches f 0 coll (batches 100 (prepare uuid4 cs)))"

text \<open>
  \<open>build_knowledge_base\<close>: clear, then add; \<open>get_collection_info\<close> catches its own
  exceptions and changes nothing. The result is whether the call raised, and the
  collection it leaves.
\<close>

definition build_knowledge_base :: "faults \<Rightarrow> (nat \<Rightarrow> string) \<Rightarrow> entry list option \<Rightarrow> chunk list \<Rightarrow> bool \<times> entry list option" where
  "build_knowledge_base f uuid4 coll processed_chunks =
     add_chunks f uuid4 (clear_collection f coll) processed_chunks"

text \<open>
  What \<open>collection.query\<close> returns: for each of the three keys a list with one list per
  query text, or \<open>None\<close>. The collection as seen by \<open>search\<close> is a function from the query
  and \<open>n_results\<close> to that result, or to \<open>None\<close> when the call raises. Distances are
  Python floats.
\<close>

record raw_result =
  documents :: "string list list option"
  metadatas :: "metadata list list option"
  distances :: "pyfloat list list option"

type_synonym vector_store = "string \<Rightarrow> nat \<Rightarrow> raw_result option"

record search_result =
  sr_content :: string
  sr_metadata :: "metadata option"
  distance :: pyfloat

text \<open>
  The metadata and the distance of result \<open>i\<close>: \<open>results['metadatas'][0][i]\<close> when
  \<open>results['metadatas']\<close> is true, else the empty dictionary (\<open>None\<close> here); the same for the
  distance, with \<open>0.0\<close>. The outer \<open>None\<close> is an \<open>IndexError\<close>.
\<close>

definition metadata_at :: "raw_result \<Rightarrow> nat \<Rightarrow> metadata option option" where
  "metadata_at results i =
     (case metadatas results of
        Some (m0 # ms) \<Rightarrow> if i < length m0 then Some (Some (m0 ! i)) else None
      | _ \<Rightarrow> Some None)"

definition distance_at :: "raw_result \<Rightarrow> nat \<Rightarrow> pyfloat option" where
  "distance_at results i =
     (case distances results of
        Some (d0 # ds) \<Rightarrow> if i < length d0 then Some (d0 ! i) else None
      | _ \<Rightarrow> Some (Fin 0 0))"

fun search_rows :: "raw_result \<Rightarrow> (nat \<times> string) list \<Rightarrow> search_result list option" where
  "search_rows results [] = Some []"
| "search_rows results ((i, doc) # rest) =
     (case metadata_at results i of
        None \<Rightarrow> None
      | Some m \<Rightarrow>
          (case distance_at results i of
             None \<Rightarrow> None
           | Some d \<Rightarrow>
               (case search_rows results rest of
                  None \<Rightarrow> None
                | Some rows \<Rightarrow> Some (\<lparr>sr_content = doc, sr_metadata = m, distance = d\<rparr> # rows))))"

text \<open>\<open>search\<close>: any exception, of the query or of the indexing, yields the empty list.\<close>

definition search :: "vector_store \<Rightarrow> string \<Rightarrow> nat \<Rightarrow> search_result list" where
  "search collection q n_results =
     (case collection q n_results of
        None \<Rightarrow> []
      | Some results \<Rightarrow>
          (case documents results of
             Some (docs0 # ds) \<Rightarrow>
               (case search_rows results (enumerate 0 docs0) of
                  None \<Rightarrow> []
                | Some rows \<Rightarrow> rows)
           | _ \<Rightarrow> []))"

text \<open>
  \<open>is_relevant\<close>: the similarity is the float \<open>1.0 - distance\<close> of the first result of
  \<open>search\<close> with \<open>n_results=1\<close>, compared with the threshold as floats are. The default
  threshold is \<open>0.5\<close>.
\<close>

definition default_threshold :: pyfloat where
  "default_threshold = Fin 1 (-1)"

definition is_relevant :: "vector_store \<Rightarrow> string \<Rightarrow> pyfloat \<Rightarrow> bool" where
  "is_relevant collection q threshold =
     (case search collection q 1 of
        [] \<Rightarrow> False
      | r # rs \<Rightarrow>
          (let similarity = float_sub (Fin 1 0) (distance r)
           in float_ge similarity threshold))"

section \<open>bot: IITUTelegramBot\<close>

text \<open>
  A session is the dictionary kept per user; \<open>user_sessions\<close> maps user ids to sessions.
  An entry of the context records the query, the response and \<open>'rag'\<close> or \<open>'general'\<close>.
\<close>

datatype source = Rag | General

record interaction =
  query :: string
  response :: response
  source :: source

record session =
  retry_count :: int
  last_query :: "string option"
  session_context :: "interaction list"

text \<open>
  The messages the bot sends are fixed texts, named here; \<open>Refining n\<close> carries the attempt
  number and \<open>Answer r\<close> the response.
\<close>

datatype reply =
    Welcome | Help | AskFirst | NoPreviousQuery | RetriesExhausted
  | Refining int | PleaseAsk | Answer response | ProcessingError

text \<open>
  The collaborators of a handler: the completion service, the collection, and the
  transport, where \<open>typing_ok\<close> says whether \<open>send_chat_action\<close> returns and \<open>answer_ok r\<close>
  whether \<open>message.answer\<close> returns for the reply \<open>r\<close> (otherwise they raise).
\<close>

record bot_env =
  ai_model :: completion
  vector_db :: vector_store
  typing_ok :: bool
  answer_ok :: "reply \<Rightarrow> bool"

text \<open>
  What a handler leaves behind: the sessions, the replies delivered, the prompts
  submitted to the completion service (in order), and whether it ended by an exception.
\<close>

record outcome =
  sessions :: "int \<rightharpoonup> session"
  sent :: "reply list"
  calls :: "prompt list"
  raised :: bool

definition new_session :: session where
  "new_session = \<lparr>retry_count = 0, last_query = None, session_context = []\<rparr>"

text \<open>
  The prompt of \<open>generate_rag_response\<close> holds, for every result, its content and the page
  title of its metadata (\<open>None\<close> where the key is missing and the default is used).
\<close>

definition rag_prompt :: "string \<Rightarrow> search_result list \<Rightarrow> prompt" where
  "rag_prompt q search_results =
     RagPrompt (map (\<lambda>r. (sr_content r, map_option page_title (sr_metadata r))) search_results) q"

definition generate_rag_response :: "completion \<Rightarrow> string \<Rightarrow> search_result list \<Rightarrow> response" where
  "generate_rag_response model q search_results =
     (case model (rag_prompt q search_results) of
        Some answer \<Rightarrow> Generated (strip answer)
      | None \<Rightarrow> RagApology)"

definition generate_general_response :: "completion \<Rightarrow> string \<Rightarrow> response" where
  "generate_general_response model q =
     (case model (GeneralPrompt q) of
        Some answer \<Rightarrow> Generated (strip answer)
      | None \<Rightarrow> GeneralFallback)"

text \<open>
  \<open>refine_query\<close>: the prompt holds the original query and, for the last three entries of
  the context, the query and \<open>response[:200]\<close> (both fixed answers are shorter than 200
  characters). On an exception the original query is returned.
\<close>

fun first200 :: "response \<Rightarrow> response" where
  "first200 (Generated t) = Generated (take 200 t)"
| "first200 r = r"

definition refine_prompt :: "string \<Rightarrow> interaction list \<Rightarrow> prompt" where
  "refine_prompt original_query ctx =
     RefinePrompt original_query
       (map (\<lambda>item. (query item, first200 (response item))) (drop (length ctx - 3) ctx))"

definition refine_query :: "completion \<Rightarrow> string \<Rightarrow> interaction list \<Rightarrow> string" where
  "refine_query model original_query ctx =
     (case model (refine_prompt original_query ctx) of
        Some answer \<Rightarrow> strip answer
      | None \<Rightarrow> original_query)"

text \<open>
  The \<open>except\<close> branch of \<open>process_user_query\<close>: the apology is sent; if that raises too,
  the handler ends by the exception.
\<close>

definition query_failed :: "bot_env \<Rightarrow> (int \<rightharpoonup> session) \<Rightarrow> prompt list \<Rightarrow> outcome" where
  "query_failed env user_sessions ps =
     (if answer_ok env ProcessingError
      then \<lparr>sessions = user_sessions, sent = [ProcessingError], calls = ps, raised = False\<rparr>
      else \<lparr>sessions = user_sessions, sent = [], calls = ps, raised = True\<rparr>)"

text \<open>
  The \<open>if\<close>/\<open>else\<close> of \<open>process_user_query\<close>: with results and a relevant query, the
  answer is generated from the results and recorded as \<open>'rag'\<close>; otherwise the general
  answer is generated and recorded as \<open>'general'\<close>. \<open>is_relevant\<close> is called with its default
  threshold, and only when there are results. The result is the prompt submitted and the
  entry appended to the context.
\<close>

definition answer_query :: "bot_env \<Rightarrow> string \<Rightarrow> search_result list \<Rightarrow> prompt \<times> interaction" where
  "answer_query env q search_results =
     (if search_results \<noteq> [] \<and> is_relevant (vector_db env) q default_threshold
      then (rag_prompt q search_results,
            \<lparr>query = q,
             response = generate_rag_response (ai_model env) q search_results,
             source = Rag\<rparr>)
      else (GeneralPrompt q,
            \<lparr>query = q,
             response = generate_general_response (ai_model env) q,
             source = General\<rparr>))"

text \<open>
  \<open>process_user_query\<close>. Inside the \<open>try\<close>: the typing action, the search with
  \<open>n_results=5\<close>, the session lookup (a \<open>KeyError\<close> without a session), the answer, the
  append to the context and its cut to the last five, and the delivery of the answer.
\<close>

definition process_user_query :: "bot_env \<Rightarrow> (int \<rightharpoonup> session) \<Rightarrow> int \<Rightarrow> string \<Rightarrow> bool \<Rightarrow> outcome" where
  "process_user_query env user_sessions user_id q is_refined =
     (if \<not> typing_ok env then query_failed env user_sessions []
      else
        let search_results = search (vector_db env) q 5 in
        case user_sessions user_id of
          None \<Rightarrow> query_failed env user_sessions []
        | Some session \<Rightarrow>
            let (p, item) = answer_query env q search_results;
                appended = session_context session @ [item];
                kept = (if length appended > 5 then drop (length appended - 5) appended
                        else appended);
                updated = user_sessions(user_id \<mapsto> session\<lparr>session_context := kept\<rparr>)
            in if answer_ok env (Answer (response item))
               then \<lparr>sessions = updated, sent = [Answer (response item)], calls = [p],
                     raised = False\<rparr>
               else query_failed env updated [p])"

text \<open>
  \<open>handle_start\<close>: the welcome is sent first; the session is (re)initialised after it.
\<close>

definition handle_start :: "bot_env \<Rightarrow> (int \<rightharpoonup> session) \<Rightarrow> int \<Rightarrow> outcome" where
  "handle_start env user_sessions user_id =
     (if \<not> answer_ok env Welcome
      then \<lparr>sessions = user_sessions, sent = [], calls = [], raised = True\<rparr>
      else \<lparr>sessions = user_sessions(user_id \<mapsto> new_session), sent = [Welcome], calls = [],
            raised = False\<rparr>)"

definition handle_help :: "bot_env \<Rightarrow> (int \<rightharpoonup> session) \<Rightarrow> int \<Rightarrow> outcome" where
  "handle_help env user_sessions user_id =
     \<lparr>sessions = user_sessions, sent = (if answer_ok env Help then [Help] else []),
      calls = [], raised = \<not> answer_ok env Help\<rparr>"

text \<open>A handler that only sends one reply and returns.\<close>

definition reject :: "bot_env \<Rightarrow> (int \<rightharpoonup> session) \<Rightarrow> reply \<Rightarrow> outcome" where
  "reject env user_sessions r =
     \<lparr>sessions = user_sessions, sent = (if answer_ok env r then [r] else []),
      calls = [], raised = \<not> answer_ok env r\<rparr>"

text \<open>
  \<open>handle_return\<close>, with \<open>Config.MAX_RETRIES\<close> as \<open>max_retries\<close>. \<open>not session['last_query']\<close>
  holds for \<open>None\<close> and for the empty string. After the three rejections: the counter is
  incremented, the query refined, the notice sent, the refined query processed.
\<close>

definition handle_return :: "int \<Rightarrow> bot_env \<Rightarrow> (int \<rightharpoonup> session) \<Rightarrow> int \<Rightarrow> outcome" where
  "handle_return max_retries env user_sessions user_id =
     (case user_sessions user_id of
        None \<Rightarrow> reject env user_sessions AskFirst
      | Some session \<Rightarrow>
          (case last_query session of
             None \<Rightarrow> reject env user_sessions NoPreviousQuery
           | Some original \<Rightarrow>
               if original = [] then reject env user_sessions NoPreviousQuery
               else if retry_count session \<ge> max_retries
                 then reject env user_sessions RetriesExhausted
               else
                 let counted = session\<lparr>retry_count := retry_count session + 1\<rparr>;
                     updated = user_sessions(user_id \<mapsto> counted);
                     p = refine_prompt original (session_context counted);
                     refined_query = refine_query (ai_model env) original (session_context counted)
                 in if \<not> answer_ok env (Refining (retry_count counted))
                    then \<lparr>sessions = updated, sent = [], calls = [p], raised = True\<rparr>
                    else
                      let r = process_user_query env updated user_id refined_query True
                      in r\<lparr>sent := Refining (retry_count counted) # sent r,
                           calls := p # calls r\<rparr>))"

text \<open>
  \<open>handle_text\<close>: blank text is rejected; otherwise the session is created if missing,
  \<open>retry_count\<close> reset, \<open>last_query\<close> set to the stripped text, and the query processed.
\<close>

definition handle_text :: "bot_env \<Rightarrow> (int \<rightharpoonup> session) \<Rightarrow> int \<Rightarrow> string \<Rightarrow> outcome" where
  "handle_text env user_sessions user_id message_text =
     (let user_query = strip message_text in
      if user_query = [] then reject env user_sessions PleaseAsk
      else
        let session = (case user_sessions user_id of None \<Rightarrow> new_session | Some s \<Rightarrow> s);
            updated = user_sessions(user_id \<mapsto>
                        session\<lparr>retry_count := 0, last_query := Some user_query\<rparr>)
        in process_user_query env updated user_id user_query False)"

text \<open>
  The dispatcher: an update is one of the three commands or a text, from a user. A run of
  the bot handles updates one after the other, each with its own collaborators, starting
  with no session.
\<close>

datatype update = StartCmd | HelpCmd | ReturnCmd | TextMsg string

fun dispatch :: "int \<Rightarrow> bot_env \<Rightarrow> (int \<rightharpoonup> session) \<Rightarrow> int \<Rightarrow> update \<Rightarrow> outcome" where
  "dispatch max_retries env user_sessions user_id StartCmd = handle_start env user_sessions user_id"
| "dispatch max_retries env user_sessions user_id HelpCmd = handle_help env user_sessions user_id"
| "dispatch max_retries env user_sessions user_id ReturnCmd =
     handle_return max_retries env user_sessions user_id"
| "dispatch max_retries env user_sessions user_id (TextMsg t) =
     handle_text env user_sessions user_id t"

fun run :: "int \<Rightarrow> (int \<rightharpoonup> session) \<Rightarrow> (bot_env \<times> int \<times> update) list \<Rightarrow> (int \<rightharpoonup> session)" where
  "run max_retries user_sessions [] = user_sessions"
| "run max_retries user_sessions ((env, user_id, u) # rest) =
     run max_retries (sessions (dispatch max_retries env user_sessions user_id u)) rest"

section \<open>Concrete collaborators for evaluation\<close>


definition empty_store :: vector_store where
  "empty_store = (\<lambda>q n. Some \<lparr>documents = Some [[]], metadatas = Some [[]],
                               distances = Some [[]]\<rparr>)"

text \<open>
  A collection with one entry, which is at distance \<open>0.1\<close> from the query
  \<open>admission deadlines\<close> and at distance \<open>0.9\<close> from every other query. The doubles
  written \<open>0.1\<close> and \<open>0.9\<close> are \<open>7205759403792794 * 2^-56\<close> and
  \<open>8106479329266893 * 2^-53\<close>.
\<close>

definition demo_store :: vector_store where
  "demo_store =
     (\<lambda>q n. Some \<lparr>documents = Some [take n [''Applications close on 25 August'']],
                   metadatas = Some [take n [\<lparr>source_url = ''https://iitu.edu.kz/admission'',
                                              page_title = ''Admission'',
                                              page_description = [],
                                              chunk_index = 0, total_chunks = 1\<rparr>]],
                   distances = Some [take n [if q = ''admission deadlines''
                                             then Fin 7205759403792794 (-56)
                                             else Fin 8106479329266893 (-53)]]\<rparr>)"

text \<open>A collection whose only entry is at the distance \<open>d\<close> from every query.\<close>

definition store_at :: "pyfloat \<Rightarrow> vector_store" where
  "store_at d =
     (\<lambda>q n. Some \<lparr>documents = Some [take n [''Applications close on 25 August'']],
                   metadatas = None,
                   distances = Some [take n [d]]\<rparr>)"

text \<open>A bot whose completion service answers every prompt and whose transport works.\<close>

definition demo_env :: "vector_store \<Rightarrow> bot_env" where
  "demo_env collection =
     \<lparr>ai_model = (\<lambda>p. Some '' ok ''), vector_db = collection, typing_ok = True,
      answer_ok = (\<lambda>r. True)\<rparr>"

text \<open>
  A site of three URLs: the home page links to the about page (twice), to another site
  and to itself; the about page links back to the home page and to a page that cannot be
  fetched.
\<close>

definition demo_web :: web where
  "demo_web =
     \<lparr>http_get = (\<lambda>u.
        if u = ''https://iitu.edu.kz'' then
          Inr \<lparr>doc_title = Some '' IITU '', doc_description = ''University'',
               doc_text = ''Welcome to IITU'',
               anchors = [''https://iitu.edu.kz/about'', ''https://example.com/'',
                          ''https://iitu.edu.kz/about'', ''https://iitu.edu.kz'']\<rparr>
        else if u = ''https://iitu.edu.kz/about'' then
          Inr \<lparr>doc_title = None, doc_description = [],
               doc_text = ''About IITU'',
               anchors = [''https://iitu.edu.kz'', ''https://iitu.edu.kz/missing'']\<rparr>
        else Inl ''404 Client Error''),
      clock = (\<lambda>u. 0)\<rparr>"

text \<open>Another site, whose home page links to a page of its own and to the IITU site.\<close>

definition other_web :: web where
  "other_web =
     \<lparr>http_get = (\<lambda>u.
        if u = ''https://example.com'' then
          Inr \<lparr>doc_title = Some ''Example'', doc_description = [],
               doc_text = ''An example'',
               anchors = [''https://example.com/about'', ''https://iitu.edu.kz'']\<rparr>
        else Inl ''404 Client Error''),
      clock = (\<lambda>u. 0)\<rparr>"

text \<open>
  The IITU site with a home page that links to a host of another domain whose name
  starts with \<open>iitu.edu.kz\<close>, and to a second foreign host.
\<close>

definition lookalike_web :: web where
  "lookalike_web =
     \<lparr>http_get = (\<lambda>u.
        if u = ''https://iitu.edu.kz'' then
          Inr \<lparr>doc_title = Some ''IITU'', doc_description = [],
               doc_text = ''Welcome to IITU'',
               anchors = [''https://iitu.edu.kz.example.com/'', ''https://example.com/'']\<rparr>
        else if u = ''https://iitu.edu.kz.example.com/'' then
          Inr \<lparr>doc_title = Some ''Example'', doc_description = [],
               doc_text = ''Not the university'', anchors = []\<rparr>
        else Inl ''404 Client Error''),
      clock = (\<lambda>u. 0)\<rparr>"

text \<open>A splitter that raises on one text and returns any other text as one chunk.\<close>

definition demo_splitter :: splitter where
  "demo_splitter = (\<lambda>t. if t = ''About IITU'' then Inl ''split failed'' else Inr [t])"

text \<open>
  A collection holding one old entry, a chunk to store, a chunk with blank content, and
  identifiers that differ from position to position.
\<close>

definition old_entry :: entry where
  "old_entry =
     \<lparr>entry_id = ''old'', document = ''Old text'',
      entry_metadata = \<lparr>source_url = ''https://iitu.edu.kz/old'', page_title = ''Old'',
                         page_description = [], chunk_index = 0, total_chunks = 1\<rparr>\<rparr>"

definition demo_chunk :: chunk where
  "demo_chunk =
     \<lparr>source_url = ''https://iitu.edu.kz/about'', page_title = ''About'',
      page_description = [], chunk_index = 0, total_chunks = 1,
      chunk_content = ''New text''\<rparr>"

definition blank_chunk :: chunk where
  "blank_chunk =
     \<lparr>source_url = ''https://iitu.edu.kz/about'', page_title = ''About'',
      page_description = [], chunk_index = 1, total_chunks = 2,
      chunk_content = ''  ''\<rparr>"

definition demo_uuid4 :: "nat \<Rightarrow> string" where
  "demo_uuid4 i = replicate (Suc i) CHR ''x''"

section \<open>Invariants\<close>

text \<open>
  The invariant of a session under the retry budget \<open>m\<close>: the counter is not negative and,
  for a budget that is not negative, within it; it is positive only after a query; the
  context holds at most five entries.
\<close>

definition session_ok :: "int \<Rightarrow> session \<Rightarrow> bool" where
  "session_ok m s =
     (retry_count s \<ge> 0 \<and> (0 \<le> m \<longrightarrow> retry_count s \<le> m)
      \<and> (retry_count s > 0 \<longrightarrow> (\<exists>q0. last_query s = Some q0 \<and> q0 \<noteq> []))
      \<and> length (session_context s) \<le> 5)"

text \<open>
  The invariant of the loop of \<open>scrape_website\<close>, started on the visited set \<open>V0\<close> and the
  pages \<open>D0\<close> with the base URL \<open>base\<close>. With \<open>F\<close> the URLs of the pages appended since
  the start: the pages of the start are still there; the URLs of \<open>F\<close> differ from each
  other and from those of \<open>V0\<close>, and the visited set is \<open>V0\<close> and \<open>F\<close>; every URL fetched
  or on the frontier was enqueued, no URL was enqueued twice, and every URL enqueued is
  visited or on the frontier; every URL enqueued is the base URL or valid; the number of
  pages is within the budget, or is what it was at the start.
\<close>

definition crawl_inv :: "urllib \<Rightarrow> string \<Rightarrow> int \<Rightarrow> string set \<Rightarrow> page list \<Rightarrow> crawl \<Rightarrow> bool" where
  "crawl_inv lib base max_pages V0 D0 st =
     (let F = map url (drop (length D0) (scraped_data st)) in
        take (length D0) (scraped_data st) = D0
      \<and> distinct F \<and> set F \<inter> V0 = {} \<and> visited_urls st = V0 \<union> set F
      \<and> set F \<subseteq> set (enqueued st)
      \<and> distinct (enqueued st)
      \<and> set (urls_to_visit st) \<subseteq> set (enqueued st)
      \<and> set (enqueued st) \<subseteq> visited_urls st \<union> set (urls_to_visit st)
      \<and> (\<forall>u \<in> set (enqueued st). u = base \<or> is_valid_url lib u = Inr True)
      \<and> int (length (scraped_data st)) \<le> max max_pages (int (length D0)))"

section \<open>Text Enhancer: failure of the completion service\<close>

text \<open>
  C8. Whatever the raw text and the page title, when the completion service fails on the
  prompt built from them, \<open>improve_text_with_ai\<close> returns the raw text unchanged. The
  function is total: the failure is never passed on to the caller.
\<close>

theorem improve_text_with_ai_failure:
  "model (ImprovePrompt ttl (take 2000 txt)) = None \<Longrightarrow>
     improve_text_with_ai model txt ttl = txt"
  by (simp add: improve_text_with_ai_def)

theorem improve_text_with_ai_failure_witness:
  "(\<lambda>p. None) (ImprovePrompt ''About'' (take 2000 '' IITU  campus '')) = (None :: string option)
   \<and> improve_text_with_ai (\<lambda>p. None) '' IITU  campus '' ''About'' = '' IITU  campus ''"
  using improve_text_with_ai_failure [of "\<lambda>p. None" "''About''" "'' IITU  campus ''"]
  by simp

section \<open>Floats: comparison and subtraction\<close>

text \<open>
  The comparison of finite floats is the comparison of their values, and a subtraction
  whose exact result has at most 53 bits is exact.
\<close>

lemma scale_value:
  assumes "e \<le> e1"
  shows "real_of_int (m * 2 ^ nat (e1 - e)) * 2 powr real_of_int e = real_of_int m * 2 powr real_of_int e1"
proof -
  have "(2::real) ^ nat (e1 - e) = 2 powr real (nat (e1 - e))"
    by (simp add: powr_realpow)
  also have "\<dots> = 2 powr (real_of_int e1 - real_of_int e)"
    using assms by simp
  finally have p: "(2::real) ^ nat (e1 - e) = 2 powr (real_of_int e1 - real_of_int e)" .
  have "real_of_int (m * 2 ^ nat (e1 - e)) * 2 powr real_of_int e
        = real_of_int m * (2 powr (real_of_int e1 - real_of_int e) * 2 powr real_of_int e)"
    using p by simp
  also have "\<dots> = real_of_int m * 2 powr real_of_int e1"
    by (simp add: powr_add [symmetric])
  finally show ?thesis .
qed

lemma float_ge_value:
  "float_ge (Fin m1 e1) (Fin m2 e2) \<longleftrightarrow> float_value (Fin m1 e1) \<ge> float_value (Fin m2 e2)"
proof -
  let ?e = "min e1 e2"
  let ?a = "m1 * 2 ^ nat (e1 - ?e)" and ?b = "m2 * 2 ^ nat (e2 - ?e)"
  have pos: "0 < (2::real) powr real_of_int ?e" by simp
  have "float_ge (Fin m1 e1) (Fin m2 e2) \<longleftrightarrow> real_of_int ?b \<le> real_of_int ?a"
    by (simp only: float_ge.simps Let_def of_int_le_iff)
  also have "\<dots> \<longleftrightarrow> real_of_int ?b * 2 powr real_of_int ?e \<le> real_of_int ?a * 2 powr real_of_int ?e"
    using pos by (simp only: mult_le_cancel_right_pos)
  also have "\<dots> \<longleftrightarrow> float_value (Fin m2 e2) \<le> float_value (Fin m1 e1)"
    by (simp only: scale_value [of ?e e1 m1] scale_value [of ?e e2 m2] min.cobounded1 min.cobounded2
          float_value_def pyfloat.case)
  finally show ?thesis .
qed

lemma float_sub_exact:
  assumes "bit_length (nat \<bar>m1 * 2 ^ nat (e1 - min e1 e2) - m2 * 2 ^ nat (e2 - min e1 e2)\<bar>) \<le> 53"
  shows "float_value (float_sub (Fin m1 e1) (Fin m2 e2))
           = float_value (Fin m1 e1) - float_value (Fin m2 e2)"
proof -
  let ?e = "min e1 e2"
  let ?a = "m1 * 2 ^ nat (e1 - ?e)" and ?b = "m2 * 2 ^ nat (e2 - ?e)"
  have "float_sub (Fin m1 e1) (Fin m2 e2) = Fin (?a - ?b) ?e"
    using assms by (simp add: round_double_def Let_def)
  then have "float_value (float_sub (Fin m1 e1) (Fin m2 e2))
        = real_of_int ?a * 2 powr real_of_int ?e - real_of_int ?b * 2 powr real_of_int ?e"
    by (simp add: float_value_def algebra_simps)
  also have "\<dots> = float_value (Fin m1 e1) - float_value (Fin m2 e2)"
    by (simp only: scale_value [of ?e e1 m1] scale_value [of ?e e2 m2] min.cobounded1 min.cobounded2
          float_value_def pyfloat.case)
  finally show ?thesis .
qed

lemma one_minus_tenth:
  "float_sub (Fin 1 0) (Fin 7205759403792794 (-56)) = Fin 8106479329266893 (-53)"
  by (simp add: round_double_def bit_length.simps Let_def)

lemma one_minus_nine_tenths:
  "float_sub (Fin 1 0) (Fin 8106479329266893 (-53)) = Fin 900719925474099 (-53)"
  by (simp add: round_double_def bit_length.simps Let_def)

text \<open>
  Two subtractions that round: \<open>1.0 - 0.3000000000000001\<close> is the double \<open>0.7\<close>, and
  \<open>1.0 - 2^-60\<close> is \<open>1.0\<close>, although the exact differences are smaller.
\<close>

lemma rounding_decides:
  "float_ge (float_sub (Fin 1 0) (Fin 5404319552844597 (-54))) (Fin 6305039478318694 (-53))"
  "\<not> 1 - float_value (Fin 5404319552844597 (-54)) \<ge> float_value (Fin 6305039478318694 (-53))"
  "float_ge (float_sub (Fin 1 0) (Fin 1 (-60))) (Fin 1 0)"
  "\<not> 1 - float_value (Fin 1 (-60)) \<ge> float_value (Fin 1 0)"
     apply (simp add: round_double_def bit_length.simps Let_def)
    apply (simp add: float_value_def powr_minus)
   apply (simp add: round_double_def bit_length.simps Let_def)
  apply (simp add: float_value_def powr_minus)
  done

section \<open>Knowledge Store: search and relevance\<close>


lemma search_demo_store:
  "search demo_store q (Suc n) =
     [\<lparr>sr_content = ''Applications close on 25 August'',
       sr_metadata = Some \<lparr>source_url = ''https://iitu.edu.kz/admission'',
                           page_title = ''Admission'', page_description = [],
                           chunk_index = 0, total_chunks = 1\<rparr>,
       distance = (if q = ''admission deadlines'' then Fin 7205759403792794 (-56)
                   else Fin 8106479329266893 (-53))\<rparr>]"
  by (simp add: demo_store_def search_def metadata_at_def distance_at_def)

lemma search_store_at:
  "search (store_at d) q (Suc n) =
     [\<lparr>sr_content = ''Applications close on 25 August'', sr_metadata = None, distance = d\<rparr>]"
  by (simp add: store_at_def search_def metadata_at_def distance_at_def)

lemma search_empty_store: "search empty_store q n = []"
  by (simp add: empty_store_def search_def)


text \<open>
  C5. \<open>is_relevant\<close> searches with \<open>n_results=1\<close> and holds exactly when there is a top hit
  and the similarity reaches the threshold, where the similarity is \<open>1.0 - distance\<close> of
  the top hit as Python computes it on floats, and is compared with the threshold as
  floats are (for finite floats, by their values). Without results it is false for every
  threshold, in particular when the query of the collection raises, which \<open>search\<close>
  turns into the empty list. The default threshold is \<open>0.5\<close>.
\<close>

theorem is_relevant_spec:
  "(is_relevant coll q threshold \<longleftrightarrow>
      search coll q 1 \<noteq> []
      \<and> float_ge (float_sub (Fin 1 0) (distance (hd (search coll q 1)))) threshold)
   \<and> (float_ge (Fin m e) (Fin m' e') \<longleftrightarrow> float_value (Fin m e) \<ge> float_value (Fin m' e'))
   \<and> (search coll q 1 = [] \<longrightarrow> \<not> is_relevant coll q threshold)
   \<and> (coll q 1 = None \<longrightarrow> search coll q 1 = [] \<and> \<not> is_relevant coll q threshold)
   \<and> default_threshold = Fin 1 (-1) \<and> float_value default_threshold = 0.5"
proof (intro conjI impI)
  show "is_relevant coll q threshold \<longleftrightarrow>
      search coll q 1 \<noteq> []
      \<and> float_ge (float_sub (Fin 1 0) (distance (hd (search coll q 1)))) threshold"
    by (simp add: is_relevant_def Let_def split: list.splits)
  show "float_ge (Fin m e) (Fin m' e') \<longleftrightarrow> float_value (Fin m e) \<ge> float_value (Fin m' e')"
    by (rule float_ge_value)
  show "\<not> is_relevant coll q threshold" if "search coll q 1 = []"
    using that by (simp add: is_relevant_def)
  show "search coll q 1 = []" if "coll q 1 = None"
    using that by (simp add: search_def)
  show "\<not> is_relevant coll q threshold" if "coll q 1 = None"
    using that by (simp add: is_relevant_def search_def)
  show "default_threshold = Fin 1 (-1)"
    by (simp add: default_threshold_def)
  show "float_value default_threshold = 0.5"
    by (simp add: default_threshold_def float_value_def powr_minus)
qed

theorem is_relevant_spec_witness:
  "is_relevant demo_store ''admission deadlines'' default_threshold
   \<and> \<not> is_relevant demo_store ''weather'' default_threshold
   \<and> is_relevant (store_at (Fin 5404319552844597 (-54))) ''fees'' (Fin 6305039478318694 (-53))
   \<and> is_relevant (store_at (Fin 1 (-60))) ''fees'' (Fin 1 0)
   \<and> \<not> is_relevant (store_at NaN) ''fees'' default_threshold
   \<and> \<not> is_relevant (\<lambda>q n. None) ''admission deadlines'' (Fin 0 0)"
proof -
  note one = search_demo_store [of _ 0, simplified] search_store_at [of _ _ 0, simplified]
  have a: "is_relevant demo_store ''admission deadlines'' default_threshold"
    using is_relevant_spec [of demo_store "''admission deadlines''" default_threshold, THEN conjunct1]
    by (simp add: one default_threshold_def round_double_def bit_length.simps Let_def)
  have b: "\<not> is_relevant demo_store ''weather'' default_threshold"
    using is_relevant_spec [of demo_store "''weather''" default_threshold, THEN conjunct1]
    by (simp add: one default_threshold_def round_double_def bit_length.simps Let_def)
  have c: "is_relevant (store_at (Fin 5404319552844597 (-54))) ''fees'' (Fin 6305039478318694 (-53))"
    using is_relevant_spec [of "store_at (Fin 5404319552844597 (-54))" "''fees''"
            "Fin 6305039478318694 (-53)", THEN conjunct1]
    by (simp add: one round_double_def bit_length.simps Let_def)
  have d: "is_relevant (store_at (Fin 1 (-60))) ''fees'' (Fin 1 0)"
    using is_relevant_spec [of "store_at (Fin 1 (-60))" "''fees''" "Fin 1 0", THEN conjunct1]
    by (simp add: one round_double_def bit_length.simps Let_def)
  have e: "\<not> is_relevant (store_at NaN) ''fees'' default_threshold"
    using is_relevant_spec [of "store_at NaN" "''fees''" default_threshold, THEN conjunct1]
    by (simp add: one)
  have none: "(\<lambda>q n. None :: raw_result option) ''admission deadlines'' 1 = None" by simp
  have f: "\<not> is_relevant (\<lambda>q n. None) ''admission deadlines'' (Fin 0 0)"
    using is_relevant_spec [of "\<lambda>q n. None" "''admission deadlines''" "Fin 0 0",
            THEN conjunct2, THEN conjunct2, THEN conjunct2, THEN conjunct1, THEN mp, OF none]
    by simp
  show ?thesis by (intro conjI a b c d e f)
qed

section \<open>Retrieval Gate\<close>



lemma answer_query_query: "query (snd (answer_query env q rs)) = q"
  by (simp add: answer_query_def)




section \<open>Conversation Session: what the handlers change\<close>

lemma query_failed_sessions [simp]: "sessions (query_failed env S ps) = S"
  by (simp add: query_failed_def)

lemma reject_simps [simp]:
  "sessions (reject env S r) = S" "calls (reject env S r) = []"
  by (simp_all add: reject_def)

lemma process_user_query_sessions:
  "sessions (process_user_query env S uid q refined) =
     (case S uid of
        None \<Rightarrow> S
      | Some s \<Rightarrow>
          if typing_ok env
          then S(uid \<mapsto> s\<lparr>session_context :=
                 drop (length (session_context s) - 4)
                   (session_context s @ [snd (answer_query env q (search (vector_db env) q 5))])\<rparr>)
          else S)"
  by (auto simp: process_user_query_def Let_def split: prod.splits option.splits)

text \<open>Per user: what a handler may change in a session.\<close>

lemma process_user_query_frame:
  "case (S u, sessions (process_user_query env S uid q refined) u) of
     (None, None) \<Rightarrow> True
   | (Some s, Some s') \<Rightarrow> retry_count s' = retry_count s \<and> last_query s' = last_query s
        \<and> (u \<noteq> uid \<longrightarrow> s' = s)
        \<and> (length (session_context s) \<le> 5 \<longrightarrow> length (session_context s') \<le> 5)
   | _ \<Rightarrow> False"
  by (auto simp: process_user_query_sessions split: option.splits)

lemma handle_return_sessions:
  "sessions (handle_return m env S uid) =
     (case S uid of
        None \<Rightarrow> S
      | Some s \<Rightarrow>
          (case last_query s of
             None \<Rightarrow> S
           | Some q0 \<Rightarrow>
               if q0 = [] \<or> retry_count s \<ge> m then S
               else if \<not> answer_ok env (Refining (retry_count s + 1))
                 then S(uid \<mapsto> s\<lparr>retry_count := retry_count s + 1\<rparr>)
               else sessions (process_user_query env (S(uid \<mapsto> s\<lparr>retry_count := retry_count s + 1\<rparr>))
                       uid (refine_query (ai_model env) q0 (session_context s)) True)))"
  by (auto simp: handle_return_def Let_def split: option.splits)

lemma handle_text_sessions:
  "sessions (handle_text env S uid t) =
     (if strip t = [] then S
      else sessions (process_user_query env
             (S(uid \<mapsto> (case S uid of None \<Rightarrow> new_session | Some s \<Rightarrow> s)
                          \<lparr>retry_count := 0, last_query := Some (strip t)\<rparr>))
             uid (strip t) False))"
  by (simp add: handle_text_def Let_def)

lemma dispatch_session_ok:
  assumes "\<And>u s. S u = Some s \<Longrightarrow> session_ok m s"
    and "sessions (dispatch m env S uid upd) u = Some s'"
  shows "session_ok m s'"
proof (cases upd)
  case StartCmd
  then show ?thesis using assms
    by (auto simp: handle_start_def new_session_def session_ok_def split: if_splits)
next
  case HelpCmd
  then show ?thesis using assms by (auto simp: handle_help_def)
next
  case ReturnCmd
  then show ?thesis using assms
    by (auto simp: handle_return_sessions process_user_query_sessions session_ok_def
             split: option.splits if_splits)
next
  case (TextMsg t)
  then show ?thesis using assms
    by (auto simp: handle_text_sessions process_user_query_sessions session_ok_def new_session_def
             split: option.splits if_splits)
qed

lemma run_session_ok:
  "(\<And>u s. S u = Some s \<Longrightarrow> session_ok m s) \<Longrightarrow> run m S upds u = Some s' \<Longrightarrow> session_ok m s'"
proof (induction upds arbitrary: S)
  case Nil
  then show ?case by simp
next
  case (Cons a upds)
  obtain env uid upd where a: "a = (env, uid, upd)" by (cases a)
  show ?case
  proof (rule Cons.IH [of "sessions (dispatch m env S uid upd)"])
    fix v s assume "sessions (dispatch m env S uid upd) v = Some s"
    then show "session_ok m s" using Cons.prems(1) dispatch_session_ok by blast
  next
    show "run m (sessions (dispatch m env S uid upd)) upds u = Some s'"
      using Cons.prems(2) a by simp
  qed
qed


lemma last5_append:
  "drop (length (drop (length xs - 5) xs @ ys) - 5) (drop (length xs - 5) xs @ ys)
     = drop (length (xs @ ys) - 5) (xs @ (ys::'a list))"
proof (cases "length xs \<le> 5")
  case True
  then show ?thesis by simp
next
  case False
  then have n: "length xs > 5" by simp
  show ?thesis
  proof (cases "length ys \<le> 5")
    case True
    with n show ?thesis by (simp add: min_def add.commute)
  next
    case False
    with n show ?thesis by (simp add: min_def add.commute)
  qed
qed

lemma handle_text_context:
  assumes "typing_ok env" "strip t \<noteq> []"
  shows "\<exists>s'. sessions (handle_text env S uid t) uid = Some s'
      \<and> session_context s' =
          (let appended = (case S uid of None \<Rightarrow> [] | Some s \<Rightarrow> session_context s)
                          @ [snd (answer_query env (strip t) (search (vector_db env) (strip t) 5))]
           in drop (length appended - 5) appended)"
  using assms
  by (auto simp: handle_text_sessions process_user_query_sessions new_session_def Let_def
           split: option.splits)

lemma run_texts_context:
  assumes "\<forall>(env, t) \<in> set qs. typing_ok env \<and> strip t \<noteq> []"
    and "length (case S uid of None \<Rightarrow> [] | Some s \<Rightarrow> session_context s) \<le> 5"
  shows "(case run m S (map (\<lambda>(env, t). (env, uid, TextMsg t)) qs) uid of
            None \<Rightarrow> [] | Some s \<Rightarrow> session_context s)
       = (let every = (case S uid of None \<Rightarrow> [] | Some s \<Rightarrow> session_context s)
                    @ map (\<lambda>(env, t). snd (answer_query env (strip t)
                                              (search (vector_db env) (strip t) 5))) qs
          in drop (length every - 5) every)"
  using assms
proof (induction qs arbitrary: S)
  case Nil
  then show ?case by simp
next
  case (Cons a qs)
  obtain env t where a: "a = (env, t)" by (cases a)
  let ?c0 = "case S uid of None \<Rightarrow> [] | Some s \<Rightarrow> session_context s"
  let ?i = "snd (answer_query env (strip t) (search (vector_db env) (strip t) 5))"
  let ?S1 = "sessions (handle_text env S uid t)"
  have ok: "typing_ok env" "strip t \<noteq> []" using Cons.prems(1) a by auto
  obtain s1 where s1: "?S1 uid = Some s1"
    and c1: "session_context s1 = drop (length (?c0 @ [?i]) - 5) (?c0 @ [?i])"
    using handle_text_context [OF ok, of S uid] by (auto simp: Let_def)
  have len1: "length (case ?S1 uid of None \<Rightarrow> [] | Some s \<Rightarrow> session_context s) \<le> 5"
    using s1 c1 Cons.prems(2) by simp
  have rest: "\<forall>(env, t) \<in> set qs. typing_ok env \<and> strip t \<noteq> []"
    using Cons.prems(1) by simp
  have c1': "session_context s1 = drop (length ?c0 - 4) (?c0 @ [?i])"
    using c1 by simp
  have "drop (length (drop (length (?c0 @ [?i]) - 5) (?c0 @ [?i]) @ ys) - 5)
             (drop (length (?c0 @ [?i]) - 5) (?c0 @ [?i]) @ ys)
        = drop (length ((?c0 @ [?i]) @ ys) - 5) ((?c0 @ [?i]) @ ys)" for ys
    by (rule last5_append)
  then show ?case
    using Cons.IH [of ?S1, OF rest len1] s1 c1 a
    by (simp add: Let_def del: drop_append length_append)
qed


text \<open>
  C7. In every run of the bot the context of every session holds at most five entries
  after each handler. A processed query appends one entry, with its query, response and
  source, and the context is cut to its last five entries, so the oldest entry goes
  first. After seven texts in a row from a user whose context was empty, the context holds
  the entries of the third to the seventh text, in order.
\<close>

theorem context_window:
  "(run m Map.empty upds uid = Some s \<longrightarrow> length (session_context s) \<le> 5)
   \<and> (typing_ok env \<and> S uid = Some s0 \<longrightarrow>
        (\<exists>s1 item. sessions (process_user_query env S uid q refined) uid = Some s1
           \<and> item = snd (answer_query env q (search (vector_db env) q 5))
           \<and> query item = q
           \<and> session_context s1 =
               drop (length (session_context s0 @ [item]) - 5) (session_context s0 @ [item])))
   \<and> ((\<forall>(env, t) \<in> set qs. typing_ok env \<and> strip t \<noteq> []) \<and> length qs = 7
        \<and> (case S uid of None \<Rightarrow> [] | Some s \<Rightarrow> session_context s) = [] \<longrightarrow>
        (\<exists>s7. run m S (map (\<lambda>(env, t). (env, uid, TextMsg t)) qs) uid = Some s7
           \<and> session_context s7 =
               map (\<lambda>(env, t). snd (answer_query env (strip t) (search (vector_db env) (strip t) 5)))
                   (drop 2 qs)
           \<and> map query (session_context s7) = map (\<lambda>(env, t). strip t) (drop 2 qs)))"
proof (intro conjI impI)
  assume "run m Map.empty upds uid = Some s"
  then have "session_ok m s" using run_session_ok [of Map.empty m upds uid s] by simp
  then show "length (session_context s) \<le> 5" by (simp add: session_ok_def)
next
  assume "typing_ok env \<and> S uid = Some s0"
  then show "\<exists>s1 item. sessions (process_user_query env S uid q refined) uid = Some s1
           \<and> item = snd (answer_query env q (search (vector_db env) q 5))
           \<and> query item = q
           \<and> session_context s1 =
               drop (length (session_context s0 @ [item]) - 5) (session_context s0 @ [item])"
    by (simp add: process_user_query_sessions answer_query_query)
next
  let ?item = "\<lambda>(env, t). snd (answer_query env (strip t) (search (vector_db env) (strip t) 5))"
  let ?c = "case run m S (map (\<lambda>(env, t). (env, uid, TextMsg t)) qs) uid of
              None \<Rightarrow> [] | Some s \<Rightarrow> session_context s"
  assume h: "(\<forall>(env, t) \<in> set qs. typing_ok env \<and> strip t \<noteq> []) \<and> length qs = 7
        \<and> (case S uid of None \<Rightarrow> [] | Some s \<Rightarrow> session_context s) = []"
  then have c: "?c = map ?item (drop 2 qs)"
    using run_texts_context [of qs S uid m] by (simp add: Let_def drop_map)
  have "length (map ?item (drop 2 qs)) = 5" using h by simp
  then have "?c \<noteq> []" using c by auto
  then obtain s7 where s7: "run m S (map (\<lambda>(env, t). (env, uid, TextMsg t)) qs) uid = Some s7"
    by (auto split: option.splits)
  have q: "query (?item x) = (\<lambda>(env, t). strip t) x" for x
    by (cases x) (simp add: answer_query_query)
  show "\<exists>s7. run m S (map (\<lambda>(env, t). (env, uid, TextMsg t)) qs) uid = Some s7
           \<and> session_context s7 = map ?item (drop 2 qs)
           \<and> map query (session_context s7) = map (\<lambda>(env, t). strip t) (drop 2 qs)"
    using s7 c q by simp
qed

lemma strip_plain [simp]: "\<not> isspace c \<Longrightarrow> \<not> isspace (last (c # cs)) \<Longrightarrow> strip (c # cs) = c # cs"
proof -
  assume a: "\<not> isspace c" and b: "\<not> isspace (last (c # cs))"
  have "rev (c # cs) = last (c # cs) # rev (butlast (c # cs))"
    by (metis append_butlast_last_id list.distinct(1) rev.simps(2) rev_rev_ident rev_singleton_conv rev_append)
  then have "dropWhile isspace (rev (c # cs)) = rev (c # cs)" using b by simp
  then show ?thesis using a by (simp add: strip_def)
qed

theorem context_window_witness:
  "\<exists>s. run 3 Map.empty
          (map (\<lambda>t. (demo_env empty_store, 7, TextMsg t))
               [''q1'', ''q2'', ''q3'', ''q4'', ''q5'', ''q6'', ''q7'']) 7 = Some s
       \<and> map query (session_context s) = [''q3'', ''q4'', ''q5'', ''q6'', ''q7'']"
proof -
  let ?qs = "map (\<lambda>t. (demo_env empty_store, t))
               [''q1'', ''q2'', ''q3'', ''q4'', ''q5'', ''q6'', ''q7'']"
  have h: "(\<forall>(env, t) \<in> set ?qs. typing_ok env \<and> strip t \<noteq> []) \<and> length ?qs = 7
        \<and> (case Map.empty (7::int) of None \<Rightarrow> [] | Some s \<Rightarrow> session_context s) = []"
    by (simp add: demo_env_def isspace_def)
  note cw = context_window [of 3 "[]" 7 undefined "demo_env empty_store" Map.empty undefined
          undefined undefined ?qs]
  from cw [THEN conjunct2, THEN conjunct2, THEN mp, OF h]
  obtain s7 where a: "run 3 Map.empty (map (\<lambda>(env, t). (env, 7, TextMsg t)) ?qs) 7 = Some s7
      \<and> session_context s7 =
               map (\<lambda>(env, t). snd (answer_query env (strip t) (search (vector_db env) (strip t) 5)))
                   (drop 2 ?qs)
      \<and> map query (session_context s7) = map (\<lambda>(env, t). strip t) (drop 2 ?qs)" ..
  have q: "map query (session_context s7) = [''q3'', ''q4'', ''q5'', ''q6'', ''q7'']"
    using a [THEN conjunct2, THEN conjunct2] by (simp add: isspace_def)
  have r: "run 3 Map.empty
          (map (\<lambda>t. (demo_env empty_store, 7, TextMsg t))
               [''q1'', ''q2'', ''q3'', ''q4'', ''q5'', ''q6'', ''q7'']) 7 = Some s7"
    using a [THEN conjunct1] by simp
  show ?thesis by (rule exI [of _ s7]) (rule conjI [OF r q])
qed

section \<open>Conversation Session: refinement\<close>

lemma handle_return_last_query:
  "map_option last_query (sessions (handle_return m env S uid) u) = map_option last_query (S u)"
  by (auto simp: handle_return_sessions process_user_query_sessions split: option.splits)

lemma handle_text_other:
  "u \<noteq> uid \<Longrightarrow> sessions (handle_text env S uid t) u = S u"
  by (auto simp: handle_text_sessions process_user_query_sessions split: option.splits)

lemma handle_start_other:
  "u \<noteq> uid \<Longrightarrow> sessions (handle_start env S uid) u = S u"
  by (simp add: handle_start_def)

lemma dispatch_last_query:
  "(v = uid \<longrightarrow> c = ReturnCmd \<or> c = HelpCmd) \<Longrightarrow>
   map_option last_query (sessions (dispatch m env S v c) uid) = map_option last_query (S uid)"
  by (cases c) (auto simp: handle_return_last_query handle_text_other handle_start_other handle_help_def)

lemma run_last_query:
  "\<forall>(env, v, c) \<in> set upds. v = uid \<longrightarrow> c = ReturnCmd \<or> c = HelpCmd \<Longrightarrow>
   map_option last_query (run m S upds uid) = map_option last_query (S uid)"
proof (induction upds arbitrary: S)
  case Nil
  then show ?case by simp
next
  case (Cons a upds)
  obtain env v c where a: "a = (env, v, c)" by (cases a)
  have "map_option last_query (run m (sessions (dispatch m env S v c)) upds uid)
        = map_option last_query (sessions (dispatch m env S v c) uid)"
    using Cons.IH [of "sessions (dispatch m env S v c)"] Cons.prems by simp
  also have "\<dots> = map_option last_query (S uid)"
    using Cons.prems a by (intro dispatch_last_query) simp
  finally show ?case using a by simp
qed

lemma handle_return_first_call:
  assumes "S uid = Some s" "last_query s = Some q0" "calls (handle_return m env S uid) \<noteq> []"
  shows "hd (calls (handle_return m env S uid)) = refine_prompt q0 (session_context s)"
  using assms by (auto simp: handle_return_def Let_def split: if_splits)

text \<open>
  C9. \<open>process_user_query\<close> writes neither \<open>retry_count\<close> nor \<open>last_query\<close> of any session,
  whatever the query and whether it is marked as refined. \<open>handle_return\<close> leaves
  \<open>last_query\<close> as it is, and the first prompt it submits is the refinement prompt of
  \<open>last_query\<close>. \<open>handle_text\<close> sets \<open>last_query\<close> to the stripped text. So as long as a
  user sends only \<open>/return\<close> (or \<open>/help\<close>), whatever other users send, the query that
  is refined stays the one of that user's last text: a refined query never becomes the
  base of the next refinement.
\<close>

theorem answer_processing_frame:
  "map_option retry_count (sessions (process_user_query env S uid q refined) u)
     = map_option retry_count (S u)
   \<and> map_option last_query (sessions (process_user_query env S uid q refined) u)
     = map_option last_query (S u)
   \<and> map_option last_query (sessions (handle_return m env S uid) u) = map_option last_query (S u)
   \<and> (strip t \<noteq> [] \<longrightarrow>
        map_option last_query (sessions (handle_text env S uid t) uid) = Some (Some (strip t)))
   \<and> (S uid = Some s \<and> last_query s = Some q0 \<and> calls (handle_return m env S uid) \<noteq> [] \<longrightarrow>
        hd (calls (handle_return m env S uid)) = refine_prompt q0 (session_context s)
        \<and> (\<exists>recent. refine_prompt q0 (session_context s) = RefinePrompt q0 recent))
   \<and> ((\<forall>(env, v, c) \<in> set upds. v = uid \<longrightarrow> c = ReturnCmd \<or> c = HelpCmd) \<longrightarrow>
        map_option last_query (run m S upds uid) = map_option last_query (S uid))"
proof (intro conjI impI)
  show "map_option retry_count (sessions (process_user_query env S uid q refined) u)
     = map_option retry_count (S u)"
    by (auto simp: process_user_query_sessions split: option.splits)
  show "map_option last_query (sessions (process_user_query env S uid q refined) u)
     = map_option last_query (S u)"
    by (auto simp: process_user_query_sessions split: option.splits)
  show "map_option last_query (sessions (handle_return m env S uid) u) = map_option last_query (S u)"
    by (rule handle_return_last_query)
  show "map_option last_query (sessions (handle_text env S uid t) uid) = Some (Some (strip t))"
    if "strip t \<noteq> []"
    using that by (auto simp: handle_text_sessions process_user_query_sessions split: option.splits)
  show "hd (calls (handle_return m env S uid)) = refine_prompt q0 (session_context s)"
    if "S uid = Some s \<and> last_query s = Some q0 \<and> calls (handle_return m env S uid) \<noteq> []"
    using that handle_return_first_call by blast
  show "\<exists>recent. refine_prompt q0 (session_context s) = RefinePrompt q0 recent"
    by (simp add: refine_prompt_def)
  show "map_option last_query (run m S upds uid) = map_option last_query (S uid)"
    if "\<forall>(env, v, c) \<in> set upds. v = uid \<longrightarrow> c = ReturnCmd \<or> c = HelpCmd"
    using that by (rule run_last_query)
qed

text \<open>
  C6. For a session whose \<open>retry_count\<close> has reached \<open>MAX_RETRIES\<close>, \<open>handle_return\<close>
  only sends a rejection: it submits no prompt and leaves every session as it is. The
  rejection is the terminal message whenever the session has a last query, which is the
  case in every run of the bot with a budget of at least one. In every run with a budget
  that is not negative, \<open>retry_count\<close> never exceeds \<open>MAX_RETRIES\<close>.
\<close>

theorem retry_budget:
  "(S uid = Some s \<and> retry_count s \<ge> m \<longrightarrow>
      sessions (handle_return m env S uid) = S \<and> calls (handle_return m env S uid) = []
      \<and> (handle_return m env S uid = reject env S RetriesExhausted
          \<or> handle_return m env S uid = reject env S NoPreviousQuery))
   \<and> (S uid = Some s \<and> retry_count s \<ge> m \<and> last_query s = Some q0 \<and> q0 \<noteq> [] \<longrightarrow>
        handle_return m env S uid = reject env S RetriesExhausted)
   \<and> (1 \<le> m \<and> run m Map.empty upds uid = Some s \<and> retry_count s \<ge> m \<longrightarrow>
        handle_return m env (run m Map.empty upds) uid
          = reject env (run m Map.empty upds) RetriesExhausted)
   \<and> (0 \<le> m \<and> run m Map.empty upds uid = Some s \<longrightarrow> retry_count s \<le> m)"
proof (intro conjI impI)
  assume h: "S uid = Some s \<and> retry_count s \<ge> m"
  then show "sessions (handle_return m env S uid) = S"
    by (auto simp: handle_return_sessions split: option.splits)
  from h show "calls (handle_return m env S uid) = []"
    by (auto simp: handle_return_def split: option.splits)
  from h show "handle_return m env S uid = reject env S RetriesExhausted
          \<or> handle_return m env S uid = reject env S NoPreviousQuery"
    by (auto simp: handle_return_def split: option.splits)
next
  assume "S uid = Some s \<and> retry_count s \<ge> m \<and> last_query s = Some q0 \<and> q0 \<noteq> []"
  then show "handle_return m env S uid = reject env S RetriesExhausted"
    by (simp add: handle_return_def)
next
  assume h: "1 \<le> m \<and> run m Map.empty upds uid = Some s \<and> retry_count s \<ge> m"
  then have "session_ok m s" using run_session_ok [of Map.empty m upds uid s] by simp
  with h obtain q0 where "last_query s = Some q0" "q0 \<noteq> []"
    by (auto simp: session_ok_def)
  with h show "handle_return m env (run m Map.empty upds) uid
          = reject env (run m Map.empty upds) RetriesExhausted"
    by (simp add: handle_return_def)
next
  assume h: "0 \<le> m \<and> run m Map.empty upds uid = Some s"
  then have "session_ok m s" using run_session_ok [of Map.empty m upds uid s] by simp
  with h show "retry_count s \<le> m" by (simp add: session_ok_def)
qed


lemma strip_fees: "strip ''fees'' = ''fees''" and strip_ok: "strip '' ok '' = ''ok''"
  by (simp_all add: strip_def isspace_def)

lemma demo_refinements:
  "run 3 Map.empty
     [(demo_env empty_store, 7, TextMsg ''fees''), (demo_env empty_store, 7, ReturnCmd),
      (demo_env empty_store, 7, ReturnCmd), (demo_env empty_store, 7, ReturnCmd)] 7
   = Some \<lparr>retry_count = 3, last_query = Some ''fees'',
           session_context =
             [\<lparr>query = ''fees'', response = Generated ''ok'', source = General\<rparr>,
              \<lparr>query = ''ok'', response = Generated ''ok'', source = General\<rparr>,
              \<lparr>query = ''ok'', response = Generated ''ok'', source = General\<rparr>,
              \<lparr>query = ''ok'', response = Generated ''ok'', source = General\<rparr>]\<rparr>"
  by (simp add: handle_text_sessions handle_return_sessions process_user_query_sessions
        answer_query_def search_empty_store demo_env_def generate_general_response_def
        refine_query_def strip_fees strip_ok new_session_def)

theorem retry_budget_witness:
  "sent (handle_return 3 (demo_env empty_store)
          (run 3 Map.empty
             [(demo_env empty_store, 7, TextMsg ''fees''), (demo_env empty_store, 7, ReturnCmd),
              (demo_env empty_store, 7, ReturnCmd), (demo_env empty_store, 7, ReturnCmd)]) 7)
     = [RetriesExhausted]"
proof -
  let ?U = "[(demo_env empty_store, 7, TextMsg ''fees''), (demo_env empty_store, 7, ReturnCmd),
              (demo_env empty_store, 7, ReturnCmd), (demo_env empty_store, 7, ReturnCmd)]"
  let ?s = "\<lparr>retry_count = 3, last_query = Some ''fees'',
           session_context =
             [\<lparr>query = ''fees'', response = Generated ''ok'', source = General\<rparr>,
              \<lparr>query = ''ok'', response = Generated ''ok'', source = General\<rparr>,
              \<lparr>query = ''ok'', response = Generated ''ok'', source = General\<rparr>,
              \<lparr>query = ''ok'', response = Generated ''ok'', source = General\<rparr>]\<rparr>"
  have h: "1 \<le> (3::int) \<and> run 3 Map.empty ?U 7 = Some ?s \<and> retry_count ?s \<ge> 3"
    using demo_refinements by simp
  note rb = retry_budget [where m = 3 and upds = ?U and uid = 7 and s = ?s
                           and env = "demo_env empty_store"]
  have "handle_return 3 (demo_env empty_store) (run 3 Map.empty ?U) 7
          = reject (demo_env empty_store) (run 3 Map.empty ?U) RetriesExhausted"
    by (rule rb [THEN conjunct2, THEN conjunct2, THEN conjunct1, THEN mp, OF h])
  then show ?thesis by (simp add: reject_def demo_env_def)
qed

theorem answer_processing_frame_witness:
  "map_option last_query
     (run 3 (sessions (handle_text (demo_env empty_store) Map.empty 7 ''fees''))
        [(demo_env empty_store, 7, ReturnCmd), (demo_env empty_store, 8, TextMsg ''other''),
         (demo_env empty_store, 7, ReturnCmd)] 7)
   = Some (Some ''fees'')"
proof -
  let ?S = "sessions (handle_text (demo_env empty_store) Map.empty 7 ''fees'')"
  let ?U = "[(demo_env empty_store, 7, ReturnCmd), (demo_env empty_store, 8, TextMsg ''other''),
         (demo_env empty_store, 7, ReturnCmd)]"
  have h: "\<forall>(env, v, c) \<in> set ?U. v = (7::int) \<longrightarrow> c = ReturnCmd \<or> c = HelpCmd"
    by simp
  note f1 = answer_processing_frame [where m = 3 and S = ?S and upds = ?U and uid = 7]
  have a: "map_option last_query (run 3 ?S ?U 7) = map_option last_query (?S 7)"
    by (rule f1 [THEN conjunct2, THEN conjunct2, THEN conjunct2, THEN conjunct2, THEN conjunct2,
                 THEN mp, OF h])
  note f2 = answer_processing_frame [where S = Map.empty and uid = 7 and t = "''fees''"
                                     and env = "demo_env empty_store"]
  have ne: "strip ''fees'' \<noteq> []" by (simp add: strip_fees)
  have b: "map_option last_query (?S 7) = Some (Some (strip ''fees''))"
    by (rule f2 [THEN conjunct2, THEN conjunct2, THEN conjunct2, THEN conjunct1, THEN mp, OF ne])
  show ?thesis using a b by (simp add: strip_fees)
qed

section \<open>Processor: pages that failed\<close>

lemma page_chunks_unprocessed: "processed p \<noteq> Some True \<Longrightarrow> page_chunks p = []"
  by (simp add: page_chunks_def split: option.splits)

lemma process_page_data_error: "error p \<noteq> None \<Longrightarrow> process_page_data model sp p = Inr p"
  by (simp add: process_page_data_def)

lemma process_all_data_nth:
  "i < length scraped \<Longrightarrow>
   process_all_data model sp scraped ! i =
     (case process_page_data model sp (scraped ! i) of
        Inr q \<Rightarrow> q | Inl e \<Rightarrow> (scraped ! i)\<lparr>processing_error := Some e\<rparr>)"
  by (simp add: process_all_data_def)

lemma page_chunks_filter:
  "\<forall>p \<in> set ps. \<not> keep p \<longrightarrow> page_chunks (f p) = [] \<Longrightarrow>
   concat (map page_chunks (map f ps)) = concat (map page_chunks (map f (filter keep ps)))"
  by (induction ps) auto

lemma error_page_unprocessed: "processed (error_page w u e) = None"
  by (simp add: error_page_def)

lemma scrape_page_unprocessed: "processed (scrape_page lib w visited u) = None"
  by (simp add: scrape_page_def error_page_def split: sum.splits)

text \<open>
  C10, as amended. Among pages that are not yet marked processed (every page of the
  scraper is such a page), a page with the key \<open>error\<close> is passed through unchanged, and a
  page whose processing raises is passed through with its fields unchanged but for the
  key \<open>processing_error\<close>, which is set to the message. Neither is marked processed, and
  neither contributes a chunk: the chunks extracted are those of the other pages.
\<close>

theorem failed_pages_yield_no_chunks:
  assumes i: "i < length scraped"
    and raw: "\<forall>p \<in> set scraped. processed p \<noteq> Some True"
    and failed: "error (scraped ! i) \<noteq> None \<or> isl (process_page_data model sp (scraped ! i))"
  shows "(error (scraped ! i) \<noteq> None \<longrightarrow>
            process_all_data model sp scraped ! i = scraped ! i)
       \<and> (\<forall>e. process_page_data model sp (scraped ! i) = Inl e \<longrightarrow>
            process_all_data model sp scraped ! i = (scraped ! i)\<lparr>processing_error := Some e\<rparr>)
       \<and> (process_all_data model sp scraped ! i)\<lparr>processing_error := processing_error (scraped ! i)\<rparr>
            = scraped ! i
       \<and> processed (process_all_data model sp scraped ! i) \<noteq> Some True
       \<and> page_chunks (process_all_data model sp scraped ! i) = []
       \<and> extract_all_chunks (process_all_data model sp scraped) =
           extract_all_chunks (process_all_data model sp
             (filter (\<lambda>p. error p = None \<and> \<not> isl (process_page_data model sp p)) scraped))"
proof -
  let ?p = "scraped ! i"
  let ?q = "process_all_data model sp scraped ! i"
  have pin: "?p \<in> set scraped" using i by simp
  have rawp: "processed ?p \<noteq> Some True" using raw pin by blast
  have a: "error ?p \<noteq> None \<longrightarrow> ?q = ?p"
    using i by (simp add: process_all_data_nth process_page_data_error)
  have b: "\<forall>e. process_page_data model sp ?p = Inl e \<longrightarrow> ?q = ?p\<lparr>processing_error := Some e\<rparr>"
    using i by (simp add: process_all_data_nth)
  have c: "?q\<lparr>processing_error := processing_error ?p\<rparr> = ?p"
  proof (cases "error ?p \<noteq> None")
    case True
    then show ?thesis using a by simp
  next
    case False
    with failed obtain e where "process_page_data model sp ?p = Inl e" by (auto simp: isl_def)
    then show ?thesis using b by simp
  qed
  have d: "processed ?q \<noteq> Some True"
  proof -
    have "processed ?q = processed (?q\<lparr>processing_error := processing_error ?p\<rparr>)" by simp
    then show ?thesis using c rawp by simp
  qed
  have e: "page_chunks ?q = []" using d by (rule page_chunks_unprocessed)
  have f: "\<forall>p \<in> set scraped. \<not> (error p = None \<and> \<not> isl (process_page_data model sp p)) \<longrightarrow>
             page_chunks (case process_page_data model sp p of
                            Inr q \<Rightarrow> q | Inl e \<Rightarrow> p\<lparr>processing_error := Some e\<rparr>) = []"
  proof (intro ballI impI)
    fix p assume p: "p \<in> set scraped"
      and bad: "\<not> (error p = None \<and> \<not> isl (process_page_data model sp p))"
    have rp: "processed p \<noteq> Some True" using raw p by blast
    show "page_chunks (case process_page_data model sp p of
                            Inr q \<Rightarrow> q | Inl e \<Rightarrow> p\<lparr>processing_error := Some e\<rparr>) = []"
    proof (cases "error p = None")
      case False
      then show ?thesis using rp by (simp add: process_page_data_error page_chunks_unprocessed)
    next
      case True
      with bad have "isl (process_page_data model sp p)" by simp
      then obtain e where "process_page_data model sp p = Inl e" by (auto simp: isl_def)
      then show ?thesis using rp by (simp add: page_chunks_unprocessed)
    qed
  qed
  have g: "extract_all_chunks (process_all_data model sp scraped) =
           extract_all_chunks (process_all_data model sp
             (filter (\<lambda>p. error p = None \<and> \<not> isl (process_page_data model sp p)) scraped))"
    unfolding extract_all_chunks_def process_all_data_def
    by (rule page_chunks_filter) (rule f)
  show ?thesis using a b c d e g by blast
qed

lemma demo_about_fails:
  "process_page_data (\<lambda>p. None) demo_splitter
     \<lparr>url = ''https://iitu.edu.kz/about'', title = ''No title'', description = [],
      content = ''About IITU'', links = [], error = None, scraped_at = 0,
      original_content = None, improved_content = None, chunks = None,
      chunk_count = None, processed = None, processing_error = None\<rparr>
   = Inl ''split failed''"
  by (simp add: process_page_data_def improve_text_with_ai_def create_chunks_def
        demo_splitter_def isspace_def)

text \<open>
  C10 as stated does not hold for a page whose processing raises: the page that is
  passed on differs from the page that came in, by the key \<open>processing_error\<close>.
\<close>

theorem processing_failure_changes_page:
  "process_page_data (\<lambda>p. None) demo_splitter
     \<lparr>url = ''https://iitu.edu.kz/about'', title = ''No title'', description = [],
      content = ''About IITU'', links = [], error = None, scraped_at = 0,
      original_content = None, improved_content = None, chunks = None,
      chunk_count = None, processed = None, processing_error = None\<rparr>
     = Inl ''split failed''
   \<and> process_all_data (\<lambda>p. None) demo_splitter
     [\<lparr>url = ''https://iitu.edu.kz/about'', title = ''No title'', description = [],
       content = ''About IITU'', links = [], error = None, scraped_at = 0,
       original_content = None, improved_content = None, chunks = None,
       chunk_count = None, processed = None, processing_error = None\<rparr>]
     \<noteq>
     [\<lparr>url = ''https://iitu.edu.kz/about'', title = ''No title'', description = [],
       content = ''About IITU'', links = [], error = None, scraped_at = 0,
       original_content = None, improved_content = None, chunks = None,
       chunk_count = None, processed = None, processing_error = None\<rparr>]"
  by (simp add: process_all_data_def demo_about_fails)

theorem failed_pages_yield_no_chunks_witness:
  "process_all_data (\<lambda>p. None) demo_splitter
     [error_page demo_web ''https://iitu.edu.kz/missing'' ''404 Client Error'',
      \<lparr>url = ''https://iitu.edu.kz/about'', title = ''No title'', description = [],
       content = ''About IITU'', links = [], error = None, scraped_at = 0,
       original_content = None, improved_content = None, chunks = None,
       chunk_count = None, processed = None, processing_error = None\<rparr>] ! 0
     = error_page demo_web ''https://iitu.edu.kz/missing'' ''404 Client Error''
   \<and> page_chunks (process_all_data (\<lambda>p. None) demo_splitter
     [error_page demo_web ''https://iitu.edu.kz/missing'' ''404 Client Error'',
      \<lparr>url = ''https://iitu.edu.kz/about'', title = ''No title'', description = [],
       content = ''About IITU'', links = [], error = None, scraped_at = 0,
       original_content = None, improved_content = None, chunks = None,
       chunk_count = None, processed = None, processing_error = None\<rparr>] ! 1) = []"
proof -
  let ?E = "error_page demo_web ''https://iitu.edu.kz/missing'' ''404 Client Error''"
  let ?P = "\<lparr>url = ''https://iitu.edu.kz/about'', title = ''No title'', description = [],
       content = ''About IITU'', links = [], error = None, scraped_at = 0,
       original_content = None, improved_content = None, chunks = None,
       chunk_count = None, processed = None, processing_error = None\<rparr>"
  have raw: "\<forall>p \<in> set [?E, ?P]. processed p \<noteq> Some True"
    by (simp add: error_page_unprocessed)
  have i0: "(0::nat) < length [?E, ?P]" and i1: "(1::nat) < length [?E, ?P]" by simp_all
  have f0: "error ([?E, ?P] ! 0) \<noteq> None \<or> isl (process_page_data (\<lambda>p. None) demo_splitter ([?E, ?P] ! 0))"
    by (simp add: error_page_def)
  have f1: "error ([?E, ?P] ! 1) \<noteq> None \<or> isl (process_page_data (\<lambda>p. None) demo_splitter ([?E, ?P] ! 1))"
    by (simp add: demo_about_fails)
  note t0 = failed_pages_yield_no_chunks [OF i0 raw f0]
  note t1 = failed_pages_yield_no_chunks [OF i1 raw f1]
  have e0: "error ([?E, ?P] ! 0) \<noteq> None" by (simp add: error_page_def)
  have a: "process_all_data (\<lambda>p. None) demo_splitter [?E, ?P] ! 0 = ?E"
    using t0 [THEN conjunct1, THEN mp, OF e0] by simp
  have b: "page_chunks (process_all_data (\<lambda>p. None) demo_splitter [?E, ?P] ! 1) = []"
    by (rule t1 [THEN conjunct2, THEN conjunct2, THEN conjunct2, THEN conjunct2, THEN conjunct1])
  show ?thesis by (rule conjI [OF a b])
qed

section \<open>Knowledge Store: rebuild\<close>

lemma batches_Nil [simp]: "batches n [] = []"
  by (simp add: batches.simps)

lemma batches_step: "xs \<noteq> [] \<Longrightarrow> 0 < n \<Longrightarrow> batches n xs = take n xs # batches n (drop n xs)"
  by (subst batches.simps) simp

lemma concat_take_batches: "0 < n \<Longrightarrow> concat (take j (batches n xs)) = take (j * n) xs"
proof (induction j arbitrary: xs)
  case 0
  then show ?case by simp
next
  case (Suc j)
  show ?case
  proof (cases "xs = []")
    case True
    then show ?thesis by simp
  next
    case False
    have "concat (take (Suc j) (batches n xs)) = take n xs @ take (j * n) (drop n xs)"
      using False Suc by (simp add: batches_step)
    also have "\<dots> = take (n + j * n) xs" by (simp add: take_add)
    finally show ?thesis by simp
  qed
qed

lemma concat_batches: "0 < n \<Longrightarrow> concat (batches n xs) = xs"
proof (induction n xs rule: batches.induct)
  case (1 n xs)
  show ?case
  proof (cases "xs = []")
    case True
    then show ?thesis by simp
  next
    case False
    then show ?thesis using 1 by (simp add: batches_step)
  qed
qed

lemma add_batches_ok:
  "\<forall>i < length bs. \<not> add_fails f (k + i) \<Longrightarrow>
   add_batches f k (Some es) bs = (False, Some (es @ concat bs))"
proof (induction bs arbitrary: k es)
  case Nil
  then show ?case by simp
next
  case (Cons b bs)
  have "\<not> add_fails f k" using Cons.prems by force
  moreover have "\<forall>i < length bs. \<not> add_fails f (Suc k + i)" using Cons.prems by force
  ultimately show ?case using Cons.IH [of "Suc k" "es @ b"] by simp
qed

lemma add_batches_fails:
  "j < length bs \<Longrightarrow> add_fails f (k + j) \<Longrightarrow> \<forall>i < j. \<not> add_fails f (k + i) \<Longrightarrow>
   add_batches f k (Some es) bs = (True, Some (es @ concat (take j bs)))"
proof (induction bs arbitrary: k es j)
  case Nil
  then show ?case by simp
next
  case (Cons b bs)
  show ?case
  proof (cases j)
    case 0
    then show ?thesis using Cons.prems by simp
  next
    case (Suc j')
    have nf: "\<not> add_fails f k" using Cons.prems(3) Suc by force
    have "add_batches f (Suc k) (Some (es @ b)) bs = (True, Some ((es @ b) @ concat (take j' bs)))"
    proof (rule Cons.IH)
      show "j' < length bs" using Cons.prems(1) Suc by simp
      show "add_fails f (Suc k + j')" using Cons.prems(2) Suc by simp
      show "\<forall>i < j'. \<not> add_fails f (Suc k + i)"
      proof (intro allI impI)
        fix i assume "i < j'"
        then have "Suc i < j" using Suc by simp
        then have "\<not> add_fails f (k + Suc i)" using Cons.prems(3) by blast
        then show "\<not> add_fails f (Suc k + i)" by simp
      qed
    qed
    then show ?thesis using nf Suc by simp
  qed
qed

text \<open>
  C1, as amended. On an existing collection, when neither the delete nor the create of
  \<open>clear_collection\<close> fails: if no insertion fails, \<open>build_knowledge_base\<close> returns and
  the collection holds exactly the new entries, one per chunk with content that is not
  blank, in order; if the insertion of batch \<open>j\<close> is the first to fail, the call raises,
  the prior entries are gone and the collection holds just the entries of the batches
  before \<open>j\<close>, that is the first \<open>100 * j\<close> new entries.
\<close>

theorem rebuild_replaces_or_tears:
  assumes "\<not> delete_fails f" and "\<not> create_fails f" and "coll = Some old"
  shows "((\<forall>k. \<not> add_fails f k) \<longrightarrow>
            build_knowledge_base f uuid4 coll cs = (False, Some (prepare uuid4 cs)))
       \<and> (j < length (batches 100 (prepare uuid4 cs)) \<and> add_fails f j
            \<and> (\<forall>i < j. \<not> add_fails f i) \<longrightarrow>
            build_knowledge_base f uuid4 coll cs = (True, Some (take (j * 100) (prepare uuid4 cs))))"
proof (intro conjI impI)
  have cl: "clear_collection f coll = Some []"
    using assms by (simp add: clear_collection_def)
  have pe: "prepare uuid4 [] = []" by (simp add: prepare_def)
  {
    assume ok: "\<forall>k. \<not> add_fails f k"
    have "add_batches f 0 (Some []) (batches 100 (prepare uuid4 cs))
          = (False, Some ([] @ concat (batches 100 (prepare uuid4 cs))))"
      by (rule add_batches_ok) (simp add: ok)
    then show "build_knowledge_base f uuid4 coll cs = (False, Some (prepare uuid4 cs))"
      using cl pe by (simp add: build_knowledge_base_def add_chunks_def concat_batches)
  }
  {
    assume h: "j < length (batches 100 (prepare uuid4 cs)) \<and> add_fails f j
            \<and> (\<forall>i < j. \<not> add_fails f i)"
    then have ne: "cs \<noteq> []" using pe by auto
    have "add_batches f 0 (Some []) (batches 100 (prepare uuid4 cs))
          = (True, Some ([] @ concat (take j (batches 100 (prepare uuid4 cs)))))"
      by (rule add_batches_fails) (use h in simp_all)
    then show "build_knowledge_base f uuid4 coll cs
                 = (True, Some (take (j * 100) (prepare uuid4 cs)))"
      using cl ne by (simp add: build_knowledge_base_def add_chunks_def concat_take_batches)
  }
qed


lemma prepare_demo:
  "prepare demo_uuid4 [demo_chunk, blank_chunk] =
     [\<lparr>entry_id = ''x'', document = ''New text'',
       entry_metadata = \<lparr>source_url = ''https://iitu.edu.kz/about'', page_title = ''About'',
                          page_description = [], chunk_index = 0, total_chunks = 1\<rparr>\<rparr>]"
  by (simp add: prepare_def demo_chunk_def blank_chunk_def demo_uuid4_def isspace_def strip_def)

lemma batches_one: "batches 100 [x] = [[x]]"
  by (simp add: batches.simps [of 100 "[x]"])

text \<open>
  C1 as stated does not hold: when the first insertion fails, the rebuild raises and
  leaves an empty collection, which is neither the prior content nor the new content.
\<close>

theorem rebuild_torn:
  "build_knowledge_base \<lparr>delete_fails = False, create_fails = False, add_fails = (\<lambda>k. True)\<rparr>
     demo_uuid4 (Some [old_entry]) [demo_chunk, blank_chunk] = (True, Some [])
   \<and> prepare demo_uuid4 [demo_chunk, blank_chunk] \<noteq> []
   \<and> [old_entry] \<noteq> []"
  by (simp add: build_knowledge_base_def add_chunks_def clear_collection_def prepare_demo batches_one)

theorem rebuild_replaces_or_tears_witness:
  "build_knowledge_base \<lparr>delete_fails = False, create_fails = False, add_fails = (\<lambda>k. False)\<rparr>
     demo_uuid4 (Some [old_entry]) [demo_chunk, blank_chunk]
     = (False, Some [\<lparr>entry_id = ''x'', document = ''New text'',
       entry_metadata = \<lparr>source_url = ''https://iitu.edu.kz/about'', page_title = ''About'',
                          page_description = [], chunk_index = 0, total_chunks = 1\<rparr>\<rparr>])
   \<and> build_knowledge_base \<lparr>delete_fails = False, create_fails = False, add_fails = (\<lambda>k. True)\<rparr>
     demo_uuid4 (Some [old_entry]) [demo_chunk, blank_chunk] = (True, Some [])"
proof -
  let ?ok = "\<lparr>delete_fails = False, create_fails = False, add_fails = (\<lambda>k. False)\<rparr>"
  let ?bad = "\<lparr>delete_fails = False, create_fails = False, add_fails = (\<lambda>k. True)\<rparr>"
  let ?cs = "[demo_chunk, blank_chunk]"
  have a: "build_knowledge_base ?ok demo_uuid4 (Some [old_entry]) ?cs
             = (False, Some (prepare demo_uuid4 ?cs))"
    using rebuild_replaces_or_tears [where f = ?ok and coll = "Some [old_entry]"
            and old = "[old_entry]" and ?uuid4.0 = demo_uuid4 and cs = ?cs]
    by simp
  have h: "0 < length (batches 100 (prepare demo_uuid4 ?cs)) \<and> add_fails ?bad 0
            \<and> (\<forall>i < 0. \<not> add_fails ?bad i)"
    by (simp add: prepare_demo batches_one)
  have b: "build_knowledge_base ?bad demo_uuid4 (Some [old_entry]) ?cs
             = (True, Some (take (0 * 100) (prepare demo_uuid4 ?cs)))"
    using rebuild_replaces_or_tears [where f = ?bad and coll = "Some [old_entry]"
            and old = "[old_entry]" and ?uuid4.0 = demo_uuid4 and cs = ?cs and j = 0] h
    by simp
  show ?thesis using a b by (simp add: prepare_demo)
qed

section \<open>Crawler: the loop of scrape_website\<close>


lemma scrape_loop_stop:
  "urls_to_visit st = [] \<or> \<not> int (length (scraped_data st)) < max_pages \<Longrightarrow>
   scrape_loop lib w max_pages st = st"
  by (subst scrape_loop.simps) (auto split: list.splits)

lemma scrape_loop_skip:
  "urls_to_visit st = u # rest \<Longrightarrow> int (length (scraped_data st)) < max_pages \<Longrightarrow>
   u \<in> visited_urls st \<Longrightarrow>
   scrape_loop lib w max_pages st = scrape_loop lib w max_pages (st\<lparr>urls_to_visit := rest\<rparr>)"
  by (subst scrape_loop.simps) simp

lemma scrape_loop_visit:
  "urls_to_visit st = u # rest \<Longrightarrow> int (length (scraped_data st)) < max_pages \<Longrightarrow>
   u \<notin> visited_urls st \<Longrightarrow>
   scrape_loop lib w max_pages st
     = scrape_loop lib w max_pages (visit lib w u (st\<lparr>urls_to_visit := rest\<rparr>))"
  by (subst scrape_loop.simps) simp

lemma scrape_loop_invariant:
  assumes init: "I st"
    and skip: "\<And>st u rest. I st \<Longrightarrow> urls_to_visit st = u # rest \<Longrightarrow>
                 int (length (scraped_data st)) < max_pages \<Longrightarrow> u \<in> visited_urls st \<Longrightarrow>
                 I (st\<lparr>urls_to_visit := rest\<rparr>)"
    and visit: "\<And>st u rest. I st \<Longrightarrow> urls_to_visit st = u # rest \<Longrightarrow>
                 int (length (scraped_data st)) < max_pages \<Longrightarrow> u \<notin> visited_urls st \<Longrightarrow>
                 I (visit lib w u (st\<lparr>urls_to_visit := rest\<rparr>))"
  shows "I (scrape_loop lib w max_pages st)"
  using assms
proof (induction lib w max_pages st rule: scrape_loop.induct)
  case (1 lib w max_pages st)
  note I0 = "1.prems"(1) and sk = "1.prems"(2) and vi = "1.prems"(3)
  show ?case
  proof (cases "urls_to_visit st")
    case Nil
    then show ?thesis using I0 by (simp add: scrape_loop_stop)
  next
    case (Cons u rest)
    show ?thesis
    proof (cases "int (length (scraped_data st)) < max_pages")
      case False
      then show ?thesis using I0 by (simp add: scrape_loop_stop)
    next
      case True
      then have nn: "\<not> \<not> int (length (scraped_data st)) < max_pages" by simp
      show ?thesis
      proof (cases "u \<in> visited_urls st")
        case in_v: True
        have step: "I (st\<lparr>urls_to_visit := rest\<rparr>)"
          using I0 Cons True in_v by (rule sk)
        have "I (scrape_loop lib w max_pages (st\<lparr>urls_to_visit := rest\<rparr>))"
          using Cons nn in_v step sk vi by (rule "1.IH"(1))
        then show ?thesis using True Cons in_v by (simp add: scrape_loop_skip)
      next
        case not_v: False
        have step: "I (visit lib w u (st\<lparr>urls_to_visit := rest\<rparr>))"
          using I0 Cons True not_v by (rule vi)
        have "I (scrape_loop lib w max_pages (visit lib w u (st\<lparr>urls_to_visit := rest\<rparr>)))"
          using Cons nn not_v step sk vi by (rule "1.IH"(2))
        then show ?thesis using True Cons not_v by (simp add: scrape_loop_visit)
      qed
    qed
  qed
qed


lemma url_scrape_page [simp]: "url (scrape_page lib w V u) = u"
  by (simp add: scrape_page_def error_page_def split: sum.splits)

lemma extract_links_sound:
  "extract_links lib V hrefs cur = Inr ls \<Longrightarrow>
   \<forall>l \<in> set ls. is_valid_url lib l = Inr True \<and> l \<notin> V
                \<and> (\<exists>h \<in> set hrefs. urljoin lib cur h = Inr l)"
proof (induction hrefs arbitrary: ls)
  case Nil
  then show ?case by simp
next
  case (Cons h hrefs)
  from Cons.prems obtain u valid ls' where
    j: "urljoin lib cur h = Inr u" and v: "is_valid_url lib u = Inr valid"
    and r: "extract_links lib V hrefs cur = Inr ls'"
    and ls: "ls = (if valid \<and> u \<notin> V then u # ls' else ls')"
    by (auto split: sum.splits)
  have ih: "\<forall>l \<in> set ls'. is_valid_url lib l = Inr True \<and> l \<notin> V
                \<and> (\<exists>h \<in> set hrefs. urljoin lib cur h = Inr l)"
    using Cons.IH [OF r] .
  show ?case
  proof (intro ballI)
    fix l assume "l \<in> set ls"
    then consider "l = u" "valid" "u \<notin> V" | "l \<in> set ls'"
      using ls by (auto split: if_splits)
    then show "is_valid_url lib l = Inr True \<and> l \<notin> V
                \<and> (\<exists>h \<in> set (h # hrefs). urljoin lib cur h = Inr l)"
    proof cases
      case 1
      then show ?thesis using j v by simp
    next
      case 2
      then show ?thesis using ih by auto
    qed
  qed
qed

lemma scrape_page_links:
  "l \<in> set (links (scrape_page lib w V u)) \<Longrightarrow> is_valid_url lib l = Inr True \<and> l \<notin> V"
  by (auto simp: scrape_page_def error_page_def split: sum.splits dest: extract_links_sound)

lemma enqueue_links_char:
  "\<exists>new. enqueue_links V Q ls = Q @ new \<and> distinct new
         \<and> set new = {l \<in> set ls. l \<notin> V \<and> l \<notin> set Q}"
proof (induction ls arbitrary: Q)
  case Nil
  then show ?case by simp
next
  case (Cons l ls)
  show ?case
  proof (cases "l \<notin> V \<and> l \<notin> set Q")
    case True
    from Cons.IH [of "Q @ [l]"] obtain new where
      e: "enqueue_links V (Q @ [l]) ls = (Q @ [l]) @ new" and d: "distinct new"
      and s: "set new = {x \<in> set ls. x \<notin> V \<and> x \<notin> set (Q @ [l])}" by blast
    have "enqueue_links V Q (l # ls) = Q @ (l # new)" using True e by simp
    moreover have "distinct (l # new)" using d s by auto
    moreover have "set (l # new) = {x \<in> set (l # ls). x \<notin> V \<and> x \<notin> set Q}"
      using s True by auto
    ultimately show ?thesis by blast
  next
    case False
    from Cons.IH [of Q] obtain new where
      e: "enqueue_links V Q ls = Q @ new" and d: "distinct new"
      and s: "set new = {x \<in> set ls. x \<notin> V \<and> x \<notin> set Q}" by blast
    have "enqueue_links V Q (l # ls) = Q @ new" using False e by auto
    moreover have "set new = {x \<in> set (l # ls). x \<notin> V \<and> x \<notin> set Q}"
      using s False by auto
    ultimately show ?thesis using d by blast
  qed
qed

lemma crawl_inv_init:
  "crawl_inv lib base max_pages V0 D0
     \<lparr>urls_to_visit = [base], visited_urls = V0, scraped_data = D0, enqueued = [base]\<rparr>"
  by (simp add: crawl_inv_def)

lemma crawl_inv_skip:
  assumes "crawl_inv lib base max_pages V0 D0 st" "urls_to_visit st = u # rest"
    "u \<in> visited_urls st"
  shows "crawl_inv lib base max_pages V0 D0 (st\<lparr>urls_to_visit := rest\<rparr>)"
  using assms unfolding crawl_inv_def Let_def by auto

lemma crawl_inv_visit:
  assumes inv: "crawl_inv lib base max_pages V0 D0 st" and q: "urls_to_visit st = u # rest"
    and lt: "int (length (scraped_data st)) < max_pages" and nv: "u \<notin> visited_urls st"
  shows "crawl_inv lib base max_pages V0 D0 (visit lib w u (st\<lparr>urls_to_visit := rest\<rparr>))"
proof -
  let ?V = "insert u (visited_urls st)"
  let ?pg = "scrape_page lib w ?V u"
  let ?F = "map url (drop (length D0) (scraped_data st))"
  obtain new where e: "enqueue_links ?V rest (links ?pg) = rest @ new" and dn: "distinct new"
    and sn: "set new = {l \<in> set (links ?pg). l \<notin> ?V \<and> l \<notin> set rest}"
    using enqueue_links_char by blast
  have st': "visit lib w u (st\<lparr>urls_to_visit := rest\<rparr>) =
        \<lparr>urls_to_visit = rest @ new, visited_urls = ?V,
         scraped_data = scraped_data st @ [?pg], enqueued = enqueued st @ new\<rparr>"
    using e by (simp add: visit_def Let_def)
  from inv have tk: "take (length D0) (scraped_data st) = D0"
    and dF: "distinct ?F" and FV: "set ?F \<inter> V0 = {}" and V: "visited_urls st = V0 \<union> set ?F"
    and FL: "set ?F \<subseteq> set (enqueued st)" and dL: "distinct (enqueued st)"
    and QL: "set (urls_to_visit st) \<subseteq> set (enqueued st)"
    and LQ: "set (enqueued st) \<subseteq> visited_urls st \<union> set (urls_to_visit st)"
    and val: "\<forall>x \<in> set (enqueued st). x = base \<or> is_valid_url lib x = Inr True"
    unfolding crawl_inv_def Let_def by blast+
  have len: "length D0 \<le> length (scraped_data st)"
    using tk by (metis length_take min.cobounded1)
  have F': "map url (drop (length D0) (scraped_data st @ [?pg])) = ?F @ [u]"
    using len by simp
  have uF: "u \<notin> set ?F" and uV0: "u \<notin> V0" using nv V by auto
  have uL: "u \<in> set (enqueued st)" using QL q by auto
  have newvalid: "\<forall>x \<in> set new. is_valid_url lib x = Inr True"
    using sn scrape_page_links by blast
  have disj: "set (enqueued st) \<inter> set new = {}"
    using LQ q sn by auto
  show ?thesis
    unfolding crawl_inv_def Let_def st'
  proof (intro conjI)
    show "take (length D0) (scraped_data \<lparr>urls_to_visit = rest @ new, visited_urls = ?V,
         scraped_data = scraped_data st @ [?pg], enqueued = enqueued st @ new\<rparr>) = D0"
      using tk len by simp
  qed (use F' dF FV V FL dL QL LQ val uF uV0 uL newvalid disj dn q lt in \<open>auto simp del: url_scrape_page\<close>)
qed


lemma scrape_website_inv:
  "crawl_inv lib base max_pages V0 D0 (scrape_website lib w base max_pages V0 D0)"
  unfolding scrape_website_def
proof (rule scrape_loop_invariant)
  show "crawl_inv lib base max_pages V0 D0
     \<lparr>urls_to_visit = [base], visited_urls = V0, scraped_data = D0, enqueued = [base]\<rparr>"
    by (rule crawl_inv_init)
next
  fix st u rest
  assume "crawl_inv lib base max_pages V0 D0 st" "urls_to_visit st = u # rest"
    "int (length (scraped_data st)) < max_pages" "u \<in> visited_urls st"
  then show "crawl_inv lib base max_pages V0 D0 (st\<lparr>urls_to_visit := rest\<rparr>)"
    by (simp add: crawl_inv_skip)
next
  fix st u rest
  assume "crawl_inv lib base max_pages V0 D0 st" "urls_to_visit st = u # rest"
    "int (length (scraped_data st)) < max_pages" "u \<notin> visited_urls st"
  then show "crawl_inv lib base max_pages V0 D0 (visit lib w u (st\<lparr>urls_to_visit := rest\<rparr>))"
    by (rule crawl_inv_visit)
qed

text \<open>
  C2. Whatever the pages and their links (the site is any function from URLs to
  documents or failures, cycles included), and whatever visited set and pages the
  scraper starts with: the URLs fetched in a run differ from each other and from the
  URLs visited before, so each URL is fetched at most once; no URL is put on the frontier
  twice; the visited set only grows (it is the set at the start and the URLs fetched);
  and the number of pages stays within \<open>max_pages\<close> (or what it was at the start). For a
  new scraper the pages are at most \<open>max_pages\<close>. A URL that is popped and already visited
  is skipped: the loop goes on from the same visited set and the same pages.
\<close>

theorem crawl_visits_once:
  "(let st = scrape_website lib w base max_pages V0 D0;
        F = map url (drop (length D0) (scraped_data st))
    in take (length D0) (scraped_data st) = D0
     \<and> distinct F \<and> set F \<inter> V0 = {}
     \<and> distinct (enqueued st)
     \<and> visited_urls st = V0 \<union> set F \<and> V0 \<subseteq> visited_urls st
     \<and> int (length (scraped_data st)) \<le> max max_pages (int (length D0)))
   \<and> distinct (map url (scraped_data (new_scraper_run lib w base max_pages)))
   \<and> (0 \<le> max_pages \<longrightarrow>
        int (length (scraped_data (new_scraper_run lib w base max_pages))) \<le> max_pages)
   \<and> visited_urls st0 \<subseteq> visited_urls (visit lib w u st0)
   \<and> (urls_to_visit st0 = u # rest \<and> u \<in> visited_urls st0
        \<and> int (length (scraped_data st0)) < max_pages \<longrightarrow>
        scrape_loop lib w max_pages st0 = scrape_loop lib w max_pages (st0\<lparr>urls_to_visit := rest\<rparr>)
        \<and> visited_urls (st0\<lparr>urls_to_visit := rest\<rparr>) = visited_urls st0
        \<and> scraped_data (st0\<lparr>urls_to_visit := rest\<rparr>) = scraped_data st0)"
proof (intro conjI impI)
  have inv: "crawl_inv lib base max_pages V0 D0 (scrape_website lib w base max_pages V0 D0)"
    by (rule scrape_website_inv)
  then show "let st = scrape_website lib w base max_pages V0 D0;
        F = map url (drop (length D0) (scraped_data st))
    in take (length D0) (scraped_data st) = D0
     \<and> distinct F \<and> set F \<inter> V0 = {}
     \<and> distinct (enqueued st)
     \<and> visited_urls st = V0 \<union> set F \<and> V0 \<subseteq> visited_urls st
     \<and> int (length (scraped_data st)) \<le> max max_pages (int (length D0))"
    unfolding crawl_inv_def Let_def by blast
  have fresh: "crawl_inv lib base max_pages {} [] (new_scraper_run lib w base max_pages)"
    unfolding new_scraper_run_def by (rule scrape_website_inv)
  then show "distinct (map url (scraped_data (new_scraper_run lib w base max_pages)))"
    unfolding crawl_inv_def Let_def by simp
  show "int (length (scraped_data (new_scraper_run lib w base max_pages))) \<le> max_pages"
    if "0 \<le> max_pages"
    using fresh that unfolding crawl_inv_def Let_def by simp
  show "visited_urls st0 \<subseteq> visited_urls (visit lib w u st0)"
    by (auto simp: visit_def Let_def)
next
  assume "urls_to_visit st0 = u # rest \<and> u \<in> visited_urls st0
        \<and> int (length (scraped_data st0)) < max_pages"
  then show "scrape_loop lib w max_pages st0
               = scrape_loop lib w max_pages (st0\<lparr>urls_to_visit := rest\<rparr>)"
    by (simp add: scrape_loop_skip)
qed simp_all

text \<open>
  What the loop guarantees about \<open>is_valid_url\<close>, whatever that check accepts: every URL
  put on the frontier is the base URL or passes it, and so does every URL fetched; the
  base URL itself is fetched unchecked. For every anchor of a page the href is joined to
  the URL of the page, and it is a link of the page only if it passes the check and is
  not visited; a link is appended to the frontier exactly when it is neither visited nor
  on the frontier.
\<close>

lemma crawl_domain_check:
  "(let st = scrape_website lib w base max_pages V0 D0
    in (\<forall>u \<in> set (enqueued st). u = base \<or> is_valid_url lib u = Inr True)
     \<and> (\<forall>u \<in> set (map url (drop (length D0) (scraped_data st))).
           u = base \<or> is_valid_url lib u = Inr True))
   \<and> (extract_links lib V hrefs cur = Inr ls \<longrightarrow>
        (\<forall>l \<in> set ls. is_valid_url lib l = Inr True \<and> l \<notin> V
                      \<and> (\<exists>h \<in> set hrefs. urljoin lib cur h = Inr l)))
   \<and> (\<exists>new. enqueue_links V Q ls = Q @ new \<and> distinct new
              \<and> set new = {l \<in> set ls. l \<notin> V \<and> l \<notin> set Q})"
proof (intro conjI impI)
  have inv: "crawl_inv lib base max_pages V0 D0 (scrape_website lib w base max_pages V0 D0)"
    by (rule scrape_website_inv)
  then show "let st = scrape_website lib w base max_pages V0 D0
    in (\<forall>u \<in> set (enqueued st). u = base \<or> is_valid_url lib u = Inr True)
     \<and> (\<forall>u \<in> set (map url (drop (length D0) (scraped_data st))).
           u = base \<or> is_valid_url lib u = Inr True)"
    unfolding crawl_inv_def Let_def by blast
  show "\<forall>l \<in> set ls. is_valid_url lib l = Inr True \<and> l \<notin> V
                      \<and> (\<exists>h \<in> set hrefs. urljoin lib cur h = Inr l)"
    if "extract_links lib V hrefs cur = Inr ls"
    using that by (rule extract_links_sound)
  show "\<exists>new. enqueue_links V Q ls = Q @ new \<and> distinct new
              \<and> set new = {l \<in> set ls. l \<notin> V \<and> l \<notin> set Q}"
    by (rule enqueue_links_char)
qed

section \<open>Crawler: two concrete runs\<close>

lemma urljoin_absolute [simp]: "urljoin absolute_urllib cur h = Inr h"
  by (simp add: absolute_urllib_def)

lemma valid_iitu:
  "is_valid_url absolute_urllib ''https://iitu.edu.kz'' = Inr True"
  "is_valid_url absolute_urllib ''https://iitu.edu.kz/about'' = Inr True"
  "is_valid_url absolute_urllib ''https://iitu.edu.kz/missing'' = Inr True"
  by (simp_all add: is_valid_url_def absolute_urllib_def urlsplit_netloc_def after_scheme_def
        scheme_char_def)

lemma invalid_example:
  "is_valid_url absolute_urllib ''https://example.com'' = Inr False"
  "is_valid_url absolute_urllib ''https://example.com/'' = Inr False"
  "is_valid_url absolute_urllib ''https://example.com/about'' = Inr False"
  by (simp_all add: is_valid_url_def absolute_urllib_def urlsplit_netloc_def after_scheme_def
        scheme_char_def)

text \<open>The check is a substring test on the netloc.\<close>

lemma valid_by_substring:
  "is_valid_url absolute_urllib ''https://iitu.edu.kz.example.com/'' = Inr True"
  by (simp add: is_valid_url_def absolute_urllib_def urlsplit_netloc_def after_scheme_def
        scheme_char_def)

lemma other_crawl:
  "new_scraper_run absolute_urllib other_web ''https://example.com'' 10 =
     \<lparr>urls_to_visit = [],
      visited_urls = {''https://iitu.edu.kz'', ''https://example.com''},
      scraped_data =
        [\<lparr>url = ''https://example.com'', title = ''Example'', description = [],
          content = ''An example'', links = [''https://iitu.edu.kz''], error = None,
          scraped_at = 0, original_content = None, improved_content = None, chunks = None,
          chunk_count = None, processed = None, processing_error = None\<rparr>,
         error_page other_web ''https://iitu.edu.kz'' ''404 Client Error''],
      enqueued = [''https://example.com'', ''https://iitu.edu.kz'']\<rparr>"
  by (simp add: new_scraper_run_def scrape_website_def scrape_loop.simps visit_def scrape_page_def
        other_web_def error_page_def valid_iitu invalid_example isspace_def Let_def)

text \<open>
  The base URL is fetched without a domain check, and the check is against the IITU
  domain whatever site is configured. With another site as base URL, the base URL is
  fetched although it fails \<open>is_valid_url\<close>, and of its two links the one to the IITU
  site is enqueued and fetched, the one to its own site is not.
\<close>

lemma seed_fetched_unchecked:
  "map url (scraped_data (new_scraper_run absolute_urllib other_web ''https://example.com'' 10))
     = [''https://example.com'', ''https://iitu.edu.kz'']
   \<and> is_valid_url absolute_urllib ''https://example.com'' = Inr False
   \<and> enqueued (new_scraper_run absolute_urllib other_web ''https://example.com'' 10)
     = [''https://example.com'', ''https://iitu.edu.kz'']"
  by (simp add: other_crawl invalid_example error_page_def)

lemma demo_crawl:
  "new_scraper_run absolute_urllib demo_web ''https://iitu.edu.kz'' 10 =
     \<lparr>urls_to_visit = [],
      visited_urls = {''https://iitu.edu.kz/missing'', ''https://iitu.edu.kz/about'',
                      ''https://iitu.edu.kz''},
      scraped_data =
        [\<lparr>url = ''https://iitu.edu.kz'', title = ''IITU'', description = ''University'',
          content = ''Welcome to IITU'',
          links = [''https://iitu.edu.kz/about'', ''https://iitu.edu.kz/about''], error = None,
          scraped_at = 0, original_content = None, improved_content = None, chunks = None,
          chunk_count = None, processed = None, processing_error = None\<rparr>,
         \<lparr>url = ''https://iitu.edu.kz/about'', title = ''No title'', description = [],
          content = ''About IITU'', links = [''https://iitu.edu.kz/missing''], error = None,
          scraped_at = 0, original_content = None, improved_content = None, chunks = None,
          chunk_count = None, processed = None, processing_error = None\<rparr>,
         error_page demo_web ''https://iitu.edu.kz/missing'' ''404 Client Error''],
      enqueued = [''https://iitu.edu.kz'', ''https://iitu.edu.kz/about'',
                  ''https://iitu.edu.kz/missing'']\<rparr>"
  by (simp add: new_scraper_run_def scrape_website_def scrape_loop.simps visit_def scrape_page_def
        demo_web_def error_page_def valid_iitu invalid_example isspace_def strip_def Let_def)

theorem crawl_visits_once_witness:
  "map url (scraped_data (new_scraper_run absolute_urllib demo_web ''https://iitu.edu.kz'' 10))
     = [''https://iitu.edu.kz'', ''https://iitu.edu.kz/about'', ''https://iitu.edu.kz/missing'']
   \<and> distinct (map url (scraped_data
          (new_scraper_run absolute_urllib demo_web ''https://iitu.edu.kz'' 10)))
   \<and> int (length (scraped_data
          (new_scraper_run absolute_urllib demo_web ''https://iitu.edu.kz'' 2))) \<le> 2
   \<and> scrape_loop absolute_urllib demo_web 2
         \<lparr>urls_to_visit = [''https://iitu.edu.kz''], visited_urls = {''https://iitu.edu.kz''},
          scraped_data = [], enqueued = [''https://iitu.edu.kz'']\<rparr>
       = \<lparr>urls_to_visit = [], visited_urls = {''https://iitu.edu.kz''},
          scraped_data = [], enqueued = [''https://iitu.edu.kz'']\<rparr>"
proof -
  let ?st0 = "\<lparr>urls_to_visit = [''https://iitu.edu.kz''], visited_urls = {''https://iitu.edu.kz''},
          scraped_data = [], enqueued = [''https://iitu.edu.kz'']\<rparr>"
  note t10 = crawl_visits_once [where lib = absolute_urllib and w = demo_web
      and base = "''https://iitu.edu.kz''" and max_pages = 10]
  note t2 = crawl_visits_once [where lib = absolute_urllib and w = demo_web
      and base = "''https://iitu.edu.kz''" and max_pages = 2 and ?st0.0 = ?st0
      and u = "''https://iitu.edu.kz''" and rest = "[]"]
  have a: "map url (scraped_data (new_scraper_run absolute_urllib demo_web ''https://iitu.edu.kz'' 10))
     = [''https://iitu.edu.kz'', ''https://iitu.edu.kz/about'', ''https://iitu.edu.kz/missing'']"
    by (simp add: demo_crawl error_page_def)
  have b: "distinct (map url (scraped_data
          (new_scraper_run absolute_urllib demo_web ''https://iitu.edu.kz'' 10)))"
    by (rule t10 [THEN conjunct2, THEN conjunct1])
  have two: "(0::int) \<le> 2" by simp
  have c: "int (length (scraped_data
          (new_scraper_run absolute_urllib demo_web ''https://iitu.edu.kz'' 2))) \<le> 2"
    by (rule t2 [THEN conjunct2, THEN conjunct2, THEN conjunct1, THEN mp, OF two])
  have h: "urls_to_visit ?st0 = ''https://iitu.edu.kz'' # [] \<and> ''https://iitu.edu.kz'' \<in> visited_urls ?st0
        \<and> int (length (scraped_data ?st0)) < 2" by simp
  have "scrape_loop absolute_urllib demo_web 2 ?st0
          = scrape_loop absolute_urllib demo_web 2 (?st0\<lparr>urls_to_visit := []\<rparr>)"
    by (rule t2 [THEN conjunct2, THEN conjunct2, THEN conjunct2, THEN conjunct2, THEN mp,
                 OF h, THEN conjunct1])
  then have d: "scrape_loop absolute_urllib demo_web 2 ?st0
       = \<lparr>urls_to_visit = [], visited_urls = {''https://iitu.edu.kz''},
          scraped_data = [], enqueued = [''https://iitu.edu.kz'']\<rparr>"
    by (simp add: scrape_loop.simps)
  show ?thesis by (rule conjI [OF a conjI [OF b conjI [OF c d]]])
qed

lemma demo_home_links:
  "extract_links absolute_urllib {''https://iitu.edu.kz''}
     [''https://iitu.edu.kz/about'', ''https://example.com/'', ''https://iitu.edu.kz/about'',
      ''https://iitu.edu.kz''] ''https://iitu.edu.kz''
   = Inr [''https://iitu.edu.kz/about'', ''https://iitu.edu.kz/about'']"
  by (simp add: valid_iitu invalid_example)

lemma crawl_domain_check_demo:
  "''https://example.com/'' \<notin> set (enqueued
       (scrape_website absolute_urllib demo_web ''https://iitu.edu.kz'' 10 {} []))
   \<and> is_valid_url absolute_urllib ''https://iitu.edu.kz/about'' = Inr True"
proof -
  note t = crawl_domain_check [where lib = absolute_urllib and w = demo_web
      and base = "''https://iitu.edu.kz''" and max_pages = 10 and ?V0.0 = "{}" and ?D0.0 = "[]"
      and V = "{''https://iitu.edu.kz''}"
      and hrefs = "[''https://iitu.edu.kz/about'', ''https://example.com/'',
                    ''https://iitu.edu.kz/about'', ''https://iitu.edu.kz'']"
      and cur = "''https://iitu.edu.kz''"
      and ls = "[''https://iitu.edu.kz/about'', ''https://iitu.edu.kz/about'']"]
  let ?st = "scrape_website absolute_urllib demo_web ''https://iitu.edu.kz'' 10 {} []"
  have all: "\<forall>u \<in> set (enqueued ?st). u = ''https://iitu.edu.kz''
               \<or> is_valid_url absolute_urllib u = Inr True"
    using t [THEN conjunct1] by (simp add: Let_def)
  have a: "''https://example.com/'' \<notin> set (enqueued ?st)"
  proof
    assume "''https://example.com/'' \<in> set (enqueued ?st)"
    with all have "''https://example.com/'' = ''https://iitu.edu.kz''
               \<or> is_valid_url absolute_urllib ''https://example.com/'' = Inr True"
      by (rule bspec)
    then show False by (simp add: invalid_example)
  qed
  have "\<forall>l \<in> set [''https://iitu.edu.kz/about'', ''https://iitu.edu.kz/about''].
          is_valid_url absolute_urllib l = Inr True \<and> l \<notin> {''https://iitu.edu.kz''}
          \<and> (\<exists>h \<in> set [''https://iitu.edu.kz/about'', ''https://example.com/'',
                    ''https://iitu.edu.kz/about'', ''https://iitu.edu.kz''].
                 urljoin absolute_urllib ''https://iitu.edu.kz'' h = Inr l)"
    by (rule t [THEN conjunct2, THEN conjunct1, THEN mp, OF demo_home_links])
  then have b: "is_valid_url absolute_urllib ''https://iitu.edu.kz/about'' = Inr True"
    by simp
  show ?thesis by (rule conjI [OF a b])
qed

section \<open>Crawler: the domain check\<close>

lemma lookalike_crawl:
  "new_scraper_run absolute_urllib lookalike_web ''https://iitu.edu.kz'' 100 =
     \<lparr>urls_to_visit = [],
      visited_urls = {''https://iitu.edu.kz.example.com/'', ''https://iitu.edu.kz''},
      scraped_data =
        [\<lparr>url = ''https://iitu.edu.kz'', title = ''IITU'', description = [],
          content = ''Welcome to IITU'', links = [''https://iitu.edu.kz.example.com/''],
          error = None, scraped_at = 0, original_content = None, improved_content = None,
          chunks = None, chunk_count = None, processed = None, processing_error = None\<rparr>,
         \<lparr>url = ''https://iitu.edu.kz.example.com/'', title = ''Example'', description = [],
          content = ''Not the university'', links = [],
          error = None, scraped_at = 0, original_content = None, improved_content = None,
          chunks = None, chunk_count = None, processed = None, processing_error = None\<rparr>],
      enqueued = [''https://iitu.edu.kz'', ''https://iitu.edu.kz.example.com/'']\<rparr>"
  by (simp add: new_scraper_run_def scrape_website_def scrape_loop.simps visit_def scrape_page_def
        lookalike_web_def error_page_def valid_iitu invalid_example valid_by_substring
        isspace_def strip_def Let_def)

lemma lookalike_netloc:
  "urlsplit_netloc ''https://iitu.edu.kz.example.com/'' = ''iitu.edu.kz.example.com''"
  by (simp add: urlsplit_netloc_def after_scheme_def scheme_char_def)

text \<open>
  C3. Not every link the crawler enqueues and fetches has the IITU domain, although
  \<open>is_valid_url\<close> is documented to check that a URL belongs to it: the check accepts
  every URL whose netloc contains \<open>iitu.edu.kz\<close> somewhere. With the default base URL and
  page budget, a home page that links to \<open>https://iitu.edu.kz.example.com/\<close>, a host of
  the domain \<open>example.com\<close>, has that link enqueued and fetched, and its page is
  collected.
\<close>

theorem lookalike_host_fetched:
  "is_valid_url absolute_urllib ''https://iitu.edu.kz.example.com/'' = Inr True
   \<and> urlsplit_netloc ''https://iitu.edu.kz.example.com/'' = ''iitu.edu.kz.example.com''
   \<and> enqueued (new_scraper_run absolute_urllib lookalike_web ''https://iitu.edu.kz'' 100)
       = [''https://iitu.edu.kz'', ''https://iitu.edu.kz.example.com/'']
   \<and> map url (scraped_data
         (new_scraper_run absolute_urllib lookalike_web ''https://iitu.edu.kz'' 100))
       = [''https://iitu.edu.kz'', ''https://iitu.edu.kz.example.com/'']
   \<and> map content (scraped_data
         (new_scraper_run absolute_urllib lookalike_web ''https://iitu.edu.kz'' 100))
       = [''Welcome to IITU'', ''Not the university'']"
  by (simp add: lookalike_crawl valid_by_substring lookalike_netloc)

end
